theory Spec2Isabelle
  imports Main "HOL-Library.Char_ord" "HOL-Library.List_Lexorder" "HOL-Library.Multiset"
    "HOL-Library.Word"
begin

section \<open>Strings as the source uses them\<close>

text \<open>
  A JavaScript string is modelled as a \<open>string\<close> (a list of characters); \<open>length\<close> is
  the source's \<open>.length\<close>, \<open>take\<close> and \<open>drop\<close> are \<open>substring\<close>. The order on strings
  is the lexicographic order on character codes, which is what the default
  \<open>Array.prototype.sort\<close> uses. The strings of the model are strings of ASCII characters:
  \<open>toUpperCase\<close> and \<open>trim\<close> below are the source's on these, and say nothing of the
  letters and the white space beyond ASCII (such as U+00A0, which \<open>trim\<close> removes in
  JavaScript).
\<close>

definition CR :: char where
  "CR = CHR 0x0D"

definition LF :: char where
  "LF = CHR 0x0A"

definition TAB :: char where
  "TAB = CHR 0x09"

definition CRLF :: string where
  "CRLF = [CR, LF]"

text \<open>\<open>s.indexOf(c)\<close>: the first position of \<open>c\<close>, \<open>None\<close> for the source's \<open>-1\<close>.\<close>

fun indexOf :: "char \<Rightarrow> string \<Rightarrow> nat option" where
  "indexOf c [] = None"
| "indexOf c (x # xs) = (if x = c then Some 0 else map_option Suc (indexOf c xs))"

text \<open>\<open>s.split(c)\<close> for a one-character separator: never the empty list.\<close>

fun splitOn :: "char \<Rightarrow> string \<Rightarrow> string list" where
  "splitOn c [] = [[]]"
| "splitOn c (x # xs) =
     (if x = c then [] # splitOn c xs
      else (case splitOn c xs of [] \<Rightarrow> [[x]] | l # ls \<Rightarrow> (x # l) # ls))"

text \<open>\<open>xs.join(sep)\<close>.\<close>

fun joinWith :: "string \<Rightarrow> string list \<Rightarrow> string" where
  "joinWith sep [] = []"
| "joinWith sep [x] = x"
| "joinWith sep (x # y # ys) = x @ sep @ joinWith sep (y # ys)"

definition upperChar :: "char \<Rightarrow> char" where
  "upperChar c =
     (if CHR ''a'' \<le> c \<and> c \<le> CHR ''z'' then char_of (of_char c - (32::nat)) else c)"

text \<open>\<open>s.toUpperCase()\<close>, for the letters of ASCII.\<close>

definition toUpperCase :: "string \<Rightarrow> string" where
  "toUpperCase s = map upperChar s"

definition startsWith :: "string \<Rightarrow> string \<Rightarrow> bool" where
  "startsWith s p = (take (length p) s = p)"

definition endsWith :: "string \<Rightarrow> string \<Rightarrow> bool" where
  "endsWith s p = (length p \<le> length s \<and> drop (length s - length p) s = p)"

text \<open>\<open>s.includes(p)\<close>.\<close>

fun includesStr :: "string \<Rightarrow> string \<Rightarrow> bool" where
  "includesStr [] p = (p = [])"
| "includesStr (c # cs) p = (startsWith (c # cs) p \<or> includesStr cs p)"

text \<open>
  \<open>s.replace(pat, rep)\<close> with a string pattern: the first occurrence is replaced.
  The replacement is taken literally (JavaScript would expand a \<open>$\<close> pattern in it;
  the name of a zone holds none).
\<close>

fun replaceFirst :: "string \<Rightarrow> string \<Rightarrow> string \<Rightarrow> string" where
  "replaceFirst pat rep [] = (if pat = [] then rep else [])"
| "replaceFirst pat rep (c # cs) =
     (if startsWith (c # cs) pat then rep @ drop (length pat) (c # cs)
      else c # replaceFirst pat rep cs)"

text \<open>
  A regular expression without anchors is searched from the left: \<open>m s = Some n\<close> says
  that it matches at the start of \<open>s\<close> and takes \<open>n\<close> characters there.
  \<open>regexSearch m s\<close> is the position and the length of the leftmost match.
\<close>

fun regexSearch :: "(string \<Rightarrow> nat option) \<Rightarrow> string \<Rightarrow> (nat \<times> nat) option" where
  "regexSearch m [] = map_option (Pair 0) (m [])"
| "regexSearch m (c # cs) =
     (case m (c # cs) of
        Some n \<Rightarrow> Some (0, n)
      | None \<Rightarrow> map_option (\<lambda>(i, n). (Suc i, n)) (regexSearch m cs))"

text \<open>
  The constants of \<open>constants.ts\<close>, which is not among the sources, are parameters:
  the default zone, the table from Windows zone names to IANA names (an object indexed
  by name), and the canonical order of property names.
\<close>

record Constants =
  DEFAULT_TIMEZONE :: string
  MS_TO_IANA_TIMEZONES :: "string \<Rightarrow> string option"
  PROPERTY_ORDER :: "string list"

text \<open>
  What the platform gives: the SHA-256 digest of the UTF-8 bytes of a string
  (\<open>crypto.subtle.digest\<close> after \<open>TextEncoder\<close>), \<open>String.prototype.localeCompare\<close>,
  and the UTC fields of a \<open>Date\<close> made from a millisecond timestamp (the month counted
  from 0, as \<open>getUTCMonth\<close> does).
\<close>

record UtcDate =
  utcFullYear :: nat
  utcMonth :: nat
  utcDate :: nat
  utcHours :: nat
  utcMinutes :: nat
  utcSeconds :: nat

record Platform =
  sha256 :: "string \<Rightarrow> 8 word list"
  localeCompare :: "string \<Rightarrow> string \<Rightarrow> int"
  toUtc :: "nat \<Rightarrow> UtcDate"

section \<open>The data model (the interfaces at the head of src/lib/types.ts)\<close>

text \<open>
  \<open>IcsProperty\<close>. The field \<open>params\<close> is a JavaScript \<open>Map\<close>, which keeps its keys in
  insertion order: an association list whose keys are distinct. The fields are prefixed
  with \<open>p_\<close>.
\<close>

record IcsProperty =
  p_name :: string
  p_params :: "(string \<times> string) list"
  p_value :: string

text \<open>\<open>params.set(k, v)\<close>: an existing key keeps its place and gets the new value.\<close>

fun mapSet :: "string \<Rightarrow> string \<Rightarrow> (string \<times> string) list \<Rightarrow> (string \<times> string) list" where
  "mapSet k v [] = [(k, v)]"
| "mapSet k v ((k', v') # m) = (if k' = k then (k, v) # m else (k', v') # mapSet k v m)"

text \<open>\<open>params.get(k)\<close>.\<close>

definition mapGet :: "(string \<times> string) list \<Rightarrow> string \<Rightarrow> string option" where
  "mapGet m k = map_of m k"

record IcsEvent =
  uid :: string
  properties :: "IcsProperty list"
  rawLines :: "string list"

record ParsedCalendar =
  headerLines :: "string list"
  timezoneBlocks :: "string list"
  events :: "IcsEvent list"
  footerLines :: "string list"

text \<open>
  \<open>NormalizedEvent\<close>; its field \<open>sequence\<close> is named \<open>eventSequence\<close> here, since
  \<open>EventState\<close> has a field \<open>sequence\<close> too. \<open>recurrenceId\<close> is \<open>string | null\<close>.
\<close>

record NormalizedEvent =
  stableUid :: string
  eventSequence :: nat
  isException :: bool
  recurrenceId :: "string option"
  lines :: "string list"

record NormalizedCalendar = ParsedCalendar +
  normalizedEvents :: "NormalizedEvent list"

record EventState =
  sequence :: nat
  contentHash :: string
  lastSeen :: nat

record CalendarSnapshot =
  eventKeys :: "string list"
  generatedAt :: nat

section \<open>The parser (src/lib/parser.ts)\<close>

subsection \<open>unfoldLines\<close>

text \<open>\<open>ics.split(/\r?\n/)\<close>: a line ends at LF, or at CR directly followed by LF.\<close>

fun splitLines :: "string \<Rightarrow> string list" where
  "splitLines [] = [[]]"
| "splitLines [c] = (if c = LF then [[], []] else [[c]])"
| "splitLines (c # d # cs) =
     (if c = LF then [] # splitLines (d # cs)
      else if c = CR \<and> d = LF then [] # splitLines cs
      else (case splitLines (d # cs) of [] \<Rightarrow> [[c]] | l # ls \<Rightarrow> (c # l) # ls))"

definition isContinuation :: "string \<Rightarrow> bool" where
  "isContinuation line = (startsWith line '' '' \<or> startsWith line [TAB])"

text \<open>
  The loop of \<open>unfoldLines\<close>, with the array \<open>unfolded\<close> as its state:
  \<open>unfolded[unfolded.length - 1] += line.substring(1)\<close> is the list update, and
  \<open>unfolded.push(line)\<close> appends.
\<close>

fun unfoldLoop :: "string list \<Rightarrow> string list \<Rightarrow> string list" where
  "unfoldLoop unfolded [] = unfolded"
| "unfoldLoop unfolded (line # rest) =
     (if isContinuation line \<and> length unfolded > 0
      then unfoldLoop
             (unfolded[length unfolded - 1 := unfolded ! (length unfolded - 1) @ drop 1 line])
             rest
      else unfoldLoop (unfolded @ [line]) rest)"

definition unfoldLines :: "string \<Rightarrow> string list" where
  "unfoldLines ics = unfoldLoop [] (splitLines ics)"

text \<open>
  What unfolding means, written from its description: the first physical line always
  opens a logical line; each later line that starts with a space or a tab is glued to the
  logical line before it, without that one character.
\<close>

fun joinContinuations :: "string \<Rightarrow> string list \<Rightarrow> string list" where
  "joinContinuations cur [] = [cur]"
| "joinContinuations cur (l # ls) =
     (if isContinuation l then joinContinuations (cur @ drop 1 l) ls
      else cur # joinContinuations l ls)"


subsection \<open>parseProperty\<close>

text \<open>The loop over \<open>paramStr.split(';')\<close>: a part without \<open>=\<close> is skipped.\<close>

fun parseParams :: "string list \<Rightarrow> (string \<times> string) list \<Rightarrow> (string \<times> string) list" where
  "parseParams [] params = params"
| "parseParams (part # paramParts) params =
     (case indexOf CHR ''='' part of
        None \<Rightarrow> parseParams paramParts params
      | Some eqIdx \<Rightarrow>
          parseParams paramParts
            (mapSet (toUpperCase (take eqIdx part)) (drop (eqIdx + 1) part) params))"

definition parseProperty :: "string \<Rightarrow> IcsProperty option" where
  "parseProperty line =
     (case indexOf CHR '':'' line of
        None \<Rightarrow> None
      | Some colonIdx \<Rightarrow>
          (let beforeColon = take colonIdx line;
               v = drop (colonIdx + 1) line
           in (case indexOf CHR '';'' beforeColon of
                 None \<Rightarrow>
                   Some \<lparr>p_name = toUpperCase beforeColon, p_params = [], p_value = v\<rparr>
               | Some semiIdx \<Rightarrow>
                   Some \<lparr>p_name = toUpperCase (take semiIdx beforeColon),
                         p_params =
                           parseParams (splitOn CHR '';'' (drop (semiIdx + 1) beforeColon)) [],
                         p_value = v\<rparr>)))"

subsection \<open>parseIcs\<close>

text \<open>
  The local variables of \<open>parseIcs\<close>: the four result arrays (the fields of
  \<open>ParsedCalendar\<close>) and the seven variables of the loop.
\<close>

record ParseState = ParsedCalendar +
  inTimezone :: bool
  inEvent :: bool
  currentTimezoneLines :: "string list"
  currentEventLines :: "string list"
  currentEventProps :: "IcsProperty list"
  currentUid :: string
  headerDone :: bool

definition initialParseState :: ParseState where
  "initialParseState =
     \<lparr>headerLines = [], timezoneBlocks = [], events = [], footerLines = [],
      inTimezone = False, inEvent = False, currentTimezoneLines = [],
      currentEventLines = [], currentEventProps = [], currentUid = [],
      headerDone = False\<rparr>"

text \<open>One iteration of the loop \<open>for (const line of lines)\<close>, branch by branch.\<close>

definition pushProperty :: "ParseState \<Rightarrow> string \<Rightarrow> ParseState" where
  "pushProperty st line =
     (case parseProperty line of
        None \<Rightarrow> st
      | Some p \<Rightarrow>
          (let st' = st\<lparr>currentEventProps := currentEventProps st @ [p]\<rparr>
           in if p_name p = ''UID'' then st'\<lparr>currentUid := p_value p\<rparr> else st'))"

definition parseStep :: "ParseState \<Rightarrow> string \<Rightarrow> ParseState" where
  "parseStep st line =
     (if line = ''BEGIN:VTIMEZONE''
      then st\<lparr>inTimezone := True, currentTimezoneLines := [line]\<rparr>
      else if inTimezone st
      then (let st1 = st\<lparr>currentTimezoneLines := currentTimezoneLines st @ [line]\<rparr>
            in if line = ''END:VTIMEZONE''
               then st1\<lparr>timezoneBlocks :=
                          timezoneBlocks st1 @ [joinWith CRLF (currentTimezoneLines st1)],
                        inTimezone := False\<rparr>
               else st1)
      else if line = ''BEGIN:VEVENT''
      then st\<lparr>headerDone := True, inEvent := True, currentEventLines := [line],
              currentEventProps := [], currentUid := []\<rparr>
      else if inEvent st
      then (let st1 = st\<lparr>currentEventLines := currentEventLines st @ [line]\<rparr>;
                st2 = pushProperty st1 line
            in if line = ''END:VEVENT''
               then st2\<lparr>events :=
                          events st2 @
                            [\<lparr>uid = currentUid st2, properties = currentEventProps st2,
                              rawLines = currentEventLines st2\<rparr>],
                        inEvent := False\<rparr>
               else st2)
      else if \<not> headerDone st
      then st\<lparr>headerLines := headerLines st @ [line]\<rparr>
      else if line = ''END:VCALENDAR''
      then st\<lparr>footerLines := footerLines st @ [line]\<rparr>
      else st)"

definition parseLoop :: "ParseState \<Rightarrow> string list \<Rightarrow> ParseState" where
  "parseLoop st ls = foldl parseStep st ls"

text \<open>\<open>return { headerLines, timezoneBlocks, events, footerLines }\<close>.\<close>

definition parseResult :: "ParseState \<Rightarrow> ParsedCalendar" where
  "parseResult st =
     \<lparr>headerLines = headerLines st, timezoneBlocks = timezoneBlocks st,
      events = events st, footerLines = footerLines st\<rparr>"

text \<open>The body of \<open>parseIcs\<close> after its first line, on the unfolded lines.\<close>

definition parseLines :: "string list \<Rightarrow> ParsedCalendar" where
  "parseLines ls = parseResult (parseLoop initialParseState ls)"

definition parseIcs :: "string \<Rightarrow> ParsedCalendar" where
  "parseIcs ics = parseLines (unfoldLines ics)"

text \<open>\<open>getProperty\<close>: \<open>event.properties.find((p) => p.name === name)\<close>.\<close>

definition getProperty :: "IcsEvent \<Rightarrow> string \<Rightarrow> IcsProperty option" where
  "getProperty event n = find (\<lambda>p. p_name p = n) (properties event)"


section \<open>The normalizer (the module after the interfaces in src/lib/types.ts)\<close>

text \<open>\<open>MS_TO_IANA_TIMEZONES[tzid] || tzid\<close>: an empty entry counts as none.\<close>

definition normalizeTimezone :: "Constants \<Rightarrow> string \<Rightarrow> string" where
  "normalizeTimezone cs tzid =
     (case MS_TO_IANA_TIMEZONES cs tzid of
        None \<Rightarrow> tzid
      | Some iana \<Rightarrow> if iana = [] then tzid else iana)"

text \<open>\<open>defaultTz || DEFAULT_TIMEZONE\<close> for the optional argument.\<close>

definition orDefault :: "string option \<Rightarrow> string \<Rightarrow> string" where
  "orDefault v d = (case v of None \<Rightarrow> d | Some s \<Rightarrow> if s = [] then d else s)"

subsection \<open>sortEvents\<close>

text \<open>
  \<open>xs.sort(cmp)\<close> is a stable sort: insertion from the right, where an element goes in
  front of the first one it does not come after.
\<close>

fun insertBy :: "('a \<Rightarrow> 'a \<Rightarrow> int) \<Rightarrow> 'a \<Rightarrow> 'a list \<Rightarrow> 'a list" where
  "insertBy cmp x [] = [x]"
| "insertBy cmp x (y # ys) =
     (if cmp x y \<le> 0 then x # y # ys else y # insertBy cmp x ys)"

definition sortBy :: "('a \<Rightarrow> 'a \<Rightarrow> int) \<Rightarrow> 'a list \<Rightarrow> 'a list" where
  "sortBy cmp xs = foldr (insertBy cmp) xs []"

definition orEmpty :: "string option \<Rightarrow> string" where
  "orEmpty v = (case v of None \<Rightarrow> [] | Some s \<Rightarrow> s)"

definition compareExceptions :: "Platform \<Rightarrow> NormalizedEvent \<Rightarrow> NormalizedEvent \<Rightarrow> int" where
  "compareExceptions pf a b =
     (let uidCmp = localeCompare pf (stableUid a) (stableUid b)
      in if uidCmp \<noteq> 0 then uidCmp
         else localeCompare pf (orEmpty (recurrenceId a)) (orEmpty (recurrenceId b)))"

definition sortEvents :: "Platform \<Rightarrow> NormalizedEvent list \<Rightarrow> NormalizedEvent list" where
  "sortEvents pf evs =
     (let masters = filter (\<lambda>e. \<not> isException e) evs;
          exceptions = filter isException evs
      in sortBy (\<lambda>a b. localeCompare pf (stableUid a) (stableUid b)) masters @
         sortBy (compareExceptions pf) exceptions)"

subsection \<open>parseDateTimeValue and the datetime properties\<close>

record DateTimeValue =
  date :: string
  time :: string
  isUtc :: bool
  isDateOnly :: bool

text \<open>
  \<open>const [date, time] = cleanValue.split('T')\<close> takes the first two parts; the split of
  a string that holds a \<open>T\<close> has at least two.
\<close>

definition cleanValue :: "string \<Rightarrow> string" where
  "cleanValue v = (if endsWith v ''Z'' then take (length v - 1) v else v)"

definition parseDateTimeValue :: "string \<Rightarrow> DateTimeValue" where
  "parseDateTimeValue v =
     (let utc = endsWith v ''Z''
      in if includesStr (cleanValue v) ''T''
         then (let parts = splitOn CHR ''T'' (cleanValue v)
               in \<lparr>date = parts ! 0, time = parts ! 1, isUtc = utc, isDateOnly = False\<rparr>)
         else \<lparr>date = cleanValue v, time = [], isUtc = False, isDateOnly = True\<rparr>)"

text \<open>\<open>prop.params.get('TZID') || defaultTz\<close>: an empty parameter counts as none.\<close>

definition tzidOrDefault :: "IcsProperty \<Rightarrow> string \<Rightarrow> string" where
  "tzidOrDefault p defaultTz = orDefault (mapGet (p_params p) ''TZID'') defaultTz"

definition normalizeDateTimeProp :: "Constants \<Rightarrow> IcsProperty \<Rightarrow> string \<Rightarrow> string" where
  "normalizeDateTimeProp cs p defaultTz =
     (let dt = parseDateTimeValue (p_value p)
      in if isDateOnly dt then p_name p @ '';VALUE=DATE:'' @ date dt
         else if isUtc dt then p_name p @ '':'' @ date dt @ ''T'' @ time dt @ ''Z''
         else (let tzid = normalizeTimezone cs (tzidOrDefault p defaultTz)
               in p_name p @ '';TZID='' @ tzid @ '':'' @ date dt @ ''T'' @ time dt))"

definition normalizeRecurrenceId :: "Constants \<Rightarrow> IcsProperty \<Rightarrow> string \<Rightarrow> string" where
  "normalizeRecurrenceId cs p defaultTz =
     (let dt = parseDateTimeValue (p_value p)
      in if isDateOnly dt then ''RECURRENCE-ID;VALUE=DATE:'' @ date dt
         else if isUtc dt then ''RECURRENCE-ID:'' @ date dt @ ''T'' @ time dt @ ''Z''
         else (let tzid = normalizeTimezone cs (tzidOrDefault p defaultTz)
               in ''RECURRENCE-ID;TZID='' @ tzid @ '':'' @ date dt @ ''T'' @ time dt))"

subsection \<open>normalizeExdateRdate\<close>

text \<open>\<open>val.trim()\<close>, for the white space of ASCII.\<close>

definition isSpace :: "char \<Rightarrow> bool" where
  "isSpace c = (c \<in> set [CHR '' '', TAB, LF, CHR 0x0B, CHR 0x0C, CR])"

definition trim :: "string \<Rightarrow> string" where
  "trim s = rev (dropWhile isSpace (rev (dropWhile isSpace s)))"

text \<open>The body of the loop \<open>for (const val of values)\<close>: one entry, reassembled.\<close>

definition normalizeEntry :: "string \<Rightarrow> string" where
  "normalizeEntry v =
     (let dt = parseDateTimeValue (trim v)
      in if isDateOnly dt then date dt
         else if isUtc dt then date dt @ ''T'' @ time dt @ ''Z''
         else date dt @ ''T'' @ time dt)"

text \<open>
  \<open>normalized.sort()\<close> is \<open>sort\<close> in the order of strings by character code;
  \<open>normalized[0] && !normalized[0].includes('T')\<close> looks at the first sorted entry,
  which exists, and asks that it is not empty.
\<close>

definition normalizeExdateRdate :: "Constants \<Rightarrow> IcsProperty \<Rightarrow> string" where
  "normalizeExdateRdate cs p =
     (let vals = splitOn CHR '','' (p_value p);
          tzid = (case mapGet (p_params p) ''TZID'' of
                    None \<Rightarrow> None
                  | Some t \<Rightarrow> if t = [] then None else Some (normalizeTimezone cs t));
          normalized = sort (map normalizeEntry vals);
          isDateOnlyResult =
            (case normalized of
               [] \<Rightarrow> False
             | first # _ \<Rightarrow> first \<noteq> [] \<and> \<not> includesStr first ''T'')
      in if isDateOnlyResult then p_name p @ '';VALUE=DATE:'' @ joinWith '','' normalized
         else (case tzid of
                 Some t \<Rightarrow> p_name p @ '';TZID='' @ t @ '':'' @ joinWith '','' normalized
               | None \<Rightarrow> p_name p @ '':'' @ joinWith '','' normalized))"

subsection \<open>normalizeRrule\<close>

definition isDigit :: "char \<Rightarrow> bool" where
  "isDigit c = (CHR ''0'' \<le> c \<and> c \<le> CHR ''9'')"

definition isUpper :: "char \<Rightarrow> bool" where
  "isUpper c = (CHR ''A'' \<le> c \<and> c \<le> CHR ''Z'')"

text \<open>\<open>/BYSETPOS=(-?\d+)/\<close> at the start of a string.\<close>

definition bysetposAt :: "string \<Rightarrow> nat option" where
  "bysetposAt s =
     (if startsWith s ''BYSETPOS=''
      then (let r = drop 9 s;
                sign = (if startsWith r ''-'' then 1 else 0);
                digits = takeWhile isDigit (drop sign r)
            in if digits = [] then None else Some (9 + sign + length digits))
      else None)"

text \<open>\<open>/BYDAY=([A-Z]{2})/\<close> at the start of a string.\<close>

definition bydayAt :: "string \<Rightarrow> nat option" where
  "bydayAt s =
     (if startsWith s ''BYDAY='' \<and> 8 \<le> length s \<and> isUpper (s ! 6) \<and> isUpper (s ! 7)
      then Some 8 else None)"

text \<open>
  \<open>/BYDAY=[^;]*,/\<close> at the start of a string: a comma before the next semicolon; the
  match runs to the last such comma.
\<close>

definition bydayListAt :: "string \<Rightarrow> nat option" where
  "bydayListAt s =
     (if startsWith s ''BYDAY=''
      then (let run = takeWhile (\<lambda>c. c \<noteq> CHR '';'') (drop 6 s)
            in if CHR '','' \<in> set run
               then Some (6 + length run - length (takeWhile (\<lambda>c. c \<noteq> CHR '','') (rev run)))
               else None)
      else None)"

text \<open>\<open>/;?BYSETPOS=-?\d+/\<close> at the start of a string.\<close>

definition semiBysetposAt :: "string \<Rightarrow> nat option" where
  "semiBysetposAt s =
     (if startsWith s '';''
      then (case bysetposAt (drop 1 s) of Some n \<Rightarrow> Some (n + 1) | None \<Rightarrow> bysetposAt s)
      else bysetposAt s)"

text \<open>\<open>s.replace(regex, rep)\<close> without the \<open>g\<close> flag: the leftmost match is replaced.\<close>

definition regexReplace :: "(string \<Rightarrow> nat option) \<Rightarrow> string \<Rightarrow> string \<Rightarrow> string" where
  "regexReplace m rep s =
     (case regexSearch m s of
        None \<Rightarrow> s
      | Some (i, n) \<Rightarrow> take i s @ rep @ drop (i + n) s)"

definition normalizeRrule :: "IcsProperty \<Rightarrow> string" where
  "normalizeRrule p =
     (let v = p_value p
      in case (regexSearch bysetposAt v, regexSearch bydayAt v) of
           (Some (i, n), Some (j, m)) \<Rightarrow>
             if regexSearch bydayListAt v = None
             then (let pos = take (n - 9) (drop (i + 9) v);
                       day = take 2 (drop (j + 6) v);
                       v1 = regexReplace semiBysetposAt [] v;
                       v2 = regexReplace bydayAt (''BYDAY='' @ pos @ day) v1
                   in ''RRULE:'' @ v2)
             else ''RRULE:'' @ v
         | _ \<Rightarrow> ''RRULE:'' @ v)"

subsection \<open>reconstructProperty, normalizeProperty, normalizeEventLines\<close>

definition reconstructProperty :: "Platform \<Rightarrow> IcsProperty \<Rightarrow> string" where
  "reconstructProperty pf p =
     (let sortedParams = sortBy (\<lambda>a b. localeCompare pf (fst a) (fst b)) (p_params p)
      in p_name p @ concat (map (\<lambda>(k, v). '';'' @ k @ ''='' @ v) sortedParams) @
         '':'' @ p_value p)"

definition normalizeProperty :: "Constants \<Rightarrow> Platform \<Rightarrow> IcsProperty \<Rightarrow> string \<Rightarrow> string" where
  "normalizeProperty cs pf p defaultTz =
     (if p_name p = ''DTSTART'' \<or> p_name p = ''DTEND'' then normalizeDateTimeProp cs p defaultTz
      else if p_name p = ''RECURRENCE-ID'' then normalizeRecurrenceId cs p defaultTz
      else if p_name p = ''RRULE'' then normalizeRrule p
      else if p_name p = ''EXDATE'' \<or> p_name p = ''RDATE'' then normalizeExdateRdate cs p
      else if p_name p = ''DTSTAMP'' \<or> p_name p = ''CREATED'' \<or> p_name p = ''LAST-MODIFIED''
      then normalizeDateTimeProp cs p ''UTC''
      else reconstructProperty pf p)"

text \<open>A number in a template literal: its decimal digits.\<close>

function showNat :: "nat \<Rightarrow> string" where
  "showNat n =
     (if n < 10 then [char_of (48 + n)]
      else showNat (n div 10) @ [char_of (48 + n mod 10)])"
  by pat_completeness auto
termination
  by (relation "measure (\<lambda>n. n)") auto

text \<open>
  \<open>propsByName\<close> is a \<open>Map\<close> from a name to the properties of that name, in the order
  in which the names first occur.
\<close>

fun groupInsert ::
  "IcsProperty \<Rightarrow> (string \<times> IcsProperty list) list \<Rightarrow> (string \<times> IcsProperty list) list" where
  "groupInsert p [] = [(p_name p, [p])]"
| "groupInsert p ((n, ps) # m) =
     (if n = p_name p then (n, ps @ [p]) # m else (n, ps) # groupInsert p m)"

definition propsByName :: "IcsEvent \<Rightarrow> (string \<times> IcsProperty list) list" where
  "propsByName event = foldl (\<lambda>m p. groupInsert p m) [] (properties event)"

definition normalizeEventLines ::
  "Constants \<Rightarrow> Platform \<Rightarrow> IcsEvent \<Rightarrow> string \<Rightarrow> nat \<Rightarrow> string option \<Rightarrow> string list" where
  "normalizeEventLines cs pf event stableUid' sequence' defaultTz =
     (let tz = orDefault defaultTz (DEFAULT_TIMEZONE cs);
          byName = propsByName event;
          ordered =
            concat (map (\<lambda>propName.
                       case map_of byName propName of
                         None \<Rightarrow> []
                       | Some props \<Rightarrow>
                           filter (\<lambda>line. line \<noteq> [])
                             (map (\<lambda>p. normalizeProperty cs pf p tz) props))
                     (PROPERTY_ORDER cs));
          emittedProps = {''UID'', ''SEQUENCE''} \<union> (set (PROPERTY_ORDER cs) \<inter> fst ` set byName);
          others =
            concat (map (\<lambda>(propName, props).
                       if propName \<in> emittedProps then []
                       else if propName = ''BEGIN'' \<or> propName = ''END'' then []
                       else map (reconstructProperty pf) props)
                     byName)
      in [''BEGIN:VEVENT'', ''UID:'' @ stableUid' @ ''@calproxy'',
          ''SEQUENCE:'' @ showNat sequence'] @
         ordered @ others @ [''END:VEVENT''])"

subsection \<open>computeStableUid and computeContentHash\<close>

text \<open>\<open>b.toString(16).padStart(2, '0')\<close> for a byte.\<close>

definition hexDigit :: "nat \<Rightarrow> char" where
  "hexDigit d = ''0123456789abcdef'' ! d"

definition padStart2 :: "string \<Rightarrow> string" where
  "padStart2 s = replicate (2 - length s) CHR ''0'' @ s"

definition hexByte :: "8 word \<Rightarrow> string" where
  "hexByte b =
     padStart2 (if unat b < 16 then [hexDigit (unat b)]
                else [hexDigit (unat b div 16), hexDigit (unat b mod 16)])"

text \<open>\<open>prop?.value || ''\<close>.\<close>

definition valueOrEmpty :: "IcsProperty option \<Rightarrow> string" where
  "valueOrEmpty p = (case p of None \<Rightarrow> [] | Some q \<Rightarrow> p_value q)"

definition computeStableUid :: "Platform \<Rightarrow> IcsEvent \<Rightarrow> string" where
  "computeStableUid pf event =
     (let dtstart = getProperty event ''DTSTART'';
          summary = getProperty event ''SUMMARY'';
          organizer = getProperty event ''ORGANIZER'';
          components =
            joinWith ''|''
              [valueOrEmpty dtstart, valueOrEmpty summary, valueOrEmpty organizer, uid event];
          hashArray = sha256 pf components
      in concat (map hexByte (take 16 hashArray)))"

definition computeContentHash :: "Platform \<Rightarrow> IcsEvent \<Rightarrow> string" where
  "computeContentHash pf event =
     (let stableProps =
            joinWith [LF]
              (sort (map (\<lambda>p. p_name p @ '':'' @ p_value p)
                      (filter (\<lambda>p. p_name p \<notin> set [''DTSTAMP'', ''LAST-MODIFIED'', ''SEQUENCE''])
                         (properties event))));
          hashArray = sha256 pf stableProps
      in concat (map hexByte hashArray))"

section \<open>The serializer (the module after the store accessors in src/lib/state.ts)\<close>

subsection \<open>foldLine\<close>

text \<open>The \<open>while\<close> loop of \<open>foldLine\<close>, with \<open>result\<close> and \<open>remaining\<close> as its state.\<close>

function foldLoop :: "string list \<Rightarrow> string \<Rightarrow> string list" where
  "foldLoop result remaining =
     (if length remaining > 0
      then foldLoop (result @ ['' '' @ take 74 remaining]) (drop 74 remaining)
      else result)"
  by pat_completeness auto
termination
  by (relation "measure (\<lambda>(result, remaining). length remaining)") auto

definition foldLine :: "string \<Rightarrow> string" where
  "foldLine line =
     (if length line \<le> 75 then line
      else joinWith CRLF (foldLoop [take 75 line] (drop 75 line)))"

subsection \<open>generateVtimezone\<close>

text \<open>The templates are template literals: their lines are separated by a bare LF.\<close>

definition dstTemplate :: "string \<Rightarrow> string \<Rightarrow> string \<Rightarrow> string \<Rightarrow> string \<Rightarrow> string" where
  "dstTemplate tzid std dst stdName dstName =
     joinWith [LF]
       [''BEGIN:VTIMEZONE'',
        ''TZID:'' @ tzid,
        ''BEGIN:STANDARD'',
        ''DTSTART:19701101T020000'',
        ''RRULE:FREQ=YEARLY;BYMONTH=11;BYDAY=1SU'',
        ''TZOFFSETFROM:'' @ dst,
        ''TZOFFSETTO:'' @ std,
        ''TZNAME:'' @ stdName,
        ''END:STANDARD'',
        ''BEGIN:DAYLIGHT'',
        ''DTSTART:19700308T020000'',
        ''RRULE:FREQ=YEARLY;BYMONTH=3;BYDAY=2SU'',
        ''TZOFFSETFROM:'' @ std,
        ''TZOFFSETTO:'' @ dst,
        ''TZNAME:'' @ dstName,
        ''END:DAYLIGHT'',
        ''END:VTIMEZONE'']"

definition generateVtimezone :: "string \<Rightarrow> string" where
  "generateVtimezone tzid =
     (if tzid = ''America/Indiana/Indianapolis'' \<or> tzid = ''America/New_York''
      then dstTemplate tzid ''-0500'' ''-0400'' ''EST'' ''EDT''
      else if tzid = ''America/Chicago''
      then dstTemplate ''America/Chicago'' ''-0600'' ''-0500'' ''CST'' ''CDT''
      else if tzid = ''America/Los_Angeles''
      then dstTemplate ''America/Los_Angeles'' ''-0800'' ''-0700'' ''PST'' ''PDT''
      else joinWith [LF]
             [''BEGIN:VTIMEZONE'',
              ''TZID:'' @ tzid,
              ''BEGIN:STANDARD'',
              ''DTSTART:19700101T000000'',
              ''TZOFFSETFROM:+0000'',
              ''TZOFFSETTO:+0000'',
              ''TZNAME:'' @ tzid,
              ''END:STANDARD'',
              ''END:VTIMEZONE''])"

subsection \<open>serializeCalendar\<close>

text \<open>\<open>/TZID:([^\r\n]+)/\<close> at the start of a string, and its group in a block.\<close>

definition tzidAt :: "string \<Rightarrow> nat option" where
  "tzidAt s =
     (if startsWith s ''TZID:''
      then (let run = takeWhile (\<lambda>c. c \<noteq> CR \<and> c \<noteq> LF) (drop 5 s)
            in if run = [] then None else Some (5 + length run))
      else None)"

definition tzidMatch :: "string \<Rightarrow> string option" where
  "tzidMatch tzBlock =
     map_option (\<lambda>(i, n). take (n - 5) (drop (i + 5) tzBlock)) (regexSearch tzidAt tzBlock)"

definition serializeTzBlock :: "Constants \<Rightarrow> string \<Rightarrow> string" where
  "serializeTzBlock cs tzBlock =
     (case tzidMatch tzBlock of
        None \<Rightarrow> tzBlock
      | Some m1 \<Rightarrow>
          (let tzid = normalizeTimezone cs m1
           in if tzid \<noteq> m1 then replaceFirst m1 tzid tzBlock else tzBlock))"

text \<open>The array \<open>output\<close> before the final \<open>join\<close>.\<close>

definition serializeOutput ::
  "Constants \<Rightarrow> Platform \<Rightarrow> NormalizedCalendar \<Rightarrow> string option \<Rightarrow> string list" where
  "serializeOutput cs pf parsed defaultTz =
     (let tz = orDefault defaultTz (DEFAULT_TIMEZONE cs)
      in headerLines parsed @
         (if \<not> list_ex (\<lambda>tzBlock. includesStr tzBlock (''TZID:'' @ tz)) (timezoneBlocks parsed)
          then [generateVtimezone tz] else []) @
         map (serializeTzBlock cs) (timezoneBlocks parsed) @
         concat (map (\<lambda>event. map foldLine (lines event))
                   (sortEvents pf (normalizedEvents parsed))) @
         footerLines parsed)"

definition serializeCalendar ::
  "Constants \<Rightarrow> Platform \<Rightarrow> NormalizedCalendar \<Rightarrow> string option \<Rightarrow> string" where
  "serializeCalendar cs pf parsed defaultTz =
     joinWith CRLF (serializeOutput cs pf parsed defaultTz)"


section \<open>The state store (src/lib/state.ts, with the tenant prefix of unnamed/part_000) and the clock\<close>

text \<open>
  The KV namespace maps key strings to JSON documents. Two kinds of document matter
  here: an \<open>EventState\<close> (under \<open><prefix>:event:<key>\<close>) and a \<open>CalendarSnapshot\<close>
  (under \<open><prefix>:snapshot:keys\<close>); \<open>JSON.parse\<close> of what \<open>JSON.stringify\<close> wrote gives
  the record back. A \<open>get\<close> or \<open>put\<close> may throw, which the accessors catch: the keys on
  which they throw are part of the world. \<open>Date.now()\<close> reads a clock; each reading
  may differ from the one before, so the world holds the readings and their count.
  A \<open>put\<close> takes effect when it is issued.
\<close>

datatype Json = EventStateDoc EventState | SnapshotDoc CalendarSnapshot

record World =
  entries :: "string \<Rightarrow> Json option"
  getFails :: "string \<Rightarrow> bool"
  putFails :: "string \<Rightarrow> bool"
  clock :: "nat \<Rightarrow> nat"
  ticks :: nat

definition dateNow :: "World \<Rightarrow> nat \<times> World" where
  "dateNow w = (clock w (ticks w), w\<lparr>ticks := Suc (ticks w)\<rparr>)"

text \<open>\<open>prefix ? `${prefix}:<kind>` : `<kind>`\<close> for the optional tenant prefix.\<close>

definition kvKey :: "string option \<Rightarrow> string \<Rightarrow> string" where
  "kvKey prefix kind =
     (case prefix of
        None \<Rightarrow> kind
      | Some pre \<Rightarrow> if pre = [] then kind else pre @ '':'' @ kind)"

definition eventStateKey :: "string option \<Rightarrow> string \<Rightarrow> string" where
  "eventStateKey prefix k = kvKey prefix (''event:'' @ k)"

definition snapshotKeysKey :: "string option \<Rightarrow> string" where
  "snapshotKeysKey prefix = kvKey prefix ''snapshot:keys''"

text \<open>
  \<open>getEventState\<close>: a failing read and a missing document both give \<open>null\<close>. (Only
  \<open>saveEventState\<close> writes under an event key, so the document there is an event state.)
\<close>

definition getEventState :: "World \<Rightarrow> string \<Rightarrow> string option \<Rightarrow> EventState option" where
  "getEventState w k prefix =
     (let key = eventStateKey prefix k
      in if getFails w key then None
         else (case entries w key of Some (EventStateDoc st) \<Rightarrow> Some st | _ \<Rightarrow> None))"

text \<open>\<open>saveEventState\<close>: a failing write is logged and dropped.\<close>

definition saveEventState :: "World \<Rightarrow> string \<Rightarrow> EventState \<Rightarrow> string option \<Rightarrow> World" where
  "saveEventState w k st prefix =
     (let key = eventStateKey prefix k
      in if putFails w key then w
         else w\<lparr>entries := (entries w)(key \<mapsto> EventStateDoc st)\<rparr>)"

definition getPreviousSnapshot :: "World \<Rightarrow> string option \<Rightarrow> CalendarSnapshot option" where
  "getPreviousSnapshot w prefix =
     (let key = snapshotKeysKey prefix
      in if getFails w key then None
         else (case entries w key of Some (SnapshotDoc snap) \<Rightarrow> Some snap | _ \<Rightarrow> None))"

definition saveSnapshotKeys :: "World \<Rightarrow> string list \<Rightarrow> string option \<Rightarrow> World" where
  "saveSnapshotKeys w keys prefix =
     (let (now, w1) = dateNow w;
          snapshot = \<lparr>eventKeys = keys, generatedAt = now\<rparr>;
          key = snapshotKeysKey prefix
      in if putFails w1 key then w1
         else w1\<lparr>entries := (entries w1)(key \<mapsto> SnapshotDoc snapshot)\<rparr>)"

section \<open>The reconciler (src/index.ts, with the tenant prefix of unnamed/part_001)\<close>

subsection \<open>createCancelledEventLines\<close>

definition pad2 :: "nat \<Rightarrow> string" where
  "pad2 n = padStart2 (showNat n)"

definition formatDtstamp :: "UtcDate \<Rightarrow> string" where
  "formatDtstamp d =
     showNat (utcFullYear d) @ pad2 (utcMonth d + 1) @ pad2 (utcDate d) @ ''T'' @
     pad2 (utcHours d) @ pad2 (utcMinutes d) @ pad2 (utcSeconds d) @ ''Z''"

text \<open>
  \<open>createCancelledEventLines\<close>, with the reading of \<open>new Date()\<close> as an argument.
  \<open>if (recurrenceId)\<close> holds for a string that is not empty.
\<close>

definition truthy :: "string option \<Rightarrow> bool" where
  "truthy v = (case v of None \<Rightarrow> False | Some s \<Rightarrow> s \<noteq> [])"

definition createCancelledEventLines ::
  "Platform \<Rightarrow> nat \<Rightarrow> string \<Rightarrow> nat \<Rightarrow> string option \<Rightarrow> string list" where
  "createCancelledEventLines pf now stableUid' sequence' recurrenceId' =
     (let dtstamp = formatDtstamp (toUtc pf now)
      in [''BEGIN:VEVENT'', ''UID:'' @ stableUid' @ ''@calproxy'',
          ''SEQUENCE:'' @ showNat sequence', ''DTSTAMP:'' @ dtstamp, ''STATUS:CANCELLED''] @
         (if truthy recurrenceId'
          then [''RECURRENCE-ID:'' @ orEmpty recurrenceId', ''DTSTART:'' @ orEmpty recurrenceId']
          else [''DTSTART:'' @ dtstamp]) @
         [''SUMMARY:Cancelled Event'', ''END:VEVENT''])"

subsection \<open>normalizeCalendar\<close>

text \<open>The event key: \<open>isException ? `${stableUid}#${recurrenceIdProp?.value}` : stableUid\<close>.\<close>

definition eventKeyOf :: "Platform \<Rightarrow> IcsEvent \<Rightarrow> string" where
  "eventKeyOf pf event =
     (case getProperty event ''RECURRENCE-ID'' of
        None \<Rightarrow> computeStableUid pf event
      | Some recurrenceIdProp \<Rightarrow>
          computeStableUid pf event @ ''#'' @ p_value recurrenceIdProp)"

text \<open>
  The sequence of an event from its prior state:
  \<open>prevState.contentHash !== contentHash ? prevState.sequence + 1 : prevState.sequence\<close>,
  and 0 without a prior state.
\<close>

definition nextSequence :: "EventState option \<Rightarrow> string \<Rightarrow> nat" where
  "nextSequence prevState hash =
     (case prevState of
        None \<Rightarrow> 0
      | Some st \<Rightarrow> if contentHash st \<noteq> hash then sequence st + 1 else sequence st)"

text \<open>
  One iteration of \<open>for (const event of parsed.events)\<close>. The state of the loop is the
  world, \<open>normalizedEvents\<close> and \<open>currentKeys\<close>.
\<close>

definition processEvent ::
  "Constants \<Rightarrow> Platform \<Rightarrow> string option \<Rightarrow> string option \<Rightarrow>
   World \<times> NormalizedEvent list \<times> string list \<Rightarrow> IcsEvent \<Rightarrow>
   World \<times> NormalizedEvent list \<times> string list" where
  "processEvent cs pf prefix defaultTimezone state event =
     (case state of (w, normalized, currentKeys) \<Rightarrow>
        (let uid' = computeStableUid pf event;
             hash = computeContentHash pf event;
             recurrenceIdProp = getProperty event ''RECURRENCE-ID'';
             eventKey = eventKeyOf pf event;
             prevState = getEventState w eventKey prefix;
             sequence' = nextSequence prevState hash;
             (now, w1) = dateNow w;
             newState = \<lparr>sequence = sequence', contentHash = hash, lastSeen = now\<rparr>;
             w2 = saveEventState w1 eventKey newState prefix;
             ls = normalizeEventLines cs pf event uid' sequence' defaultTimezone
         in (w2,
             normalized @
               [\<lparr>stableUid = uid', eventSequence = sequence',
                 isException = (recurrenceIdProp \<noteq> None),
                 recurrenceId =
                   (case recurrenceIdProp of
                      None \<Rightarrow> None
                    | Some rp \<Rightarrow> if p_value rp = [] then None else Some (p_value rp)),
                 lines = ls\<rparr>],
             currentKeys @ [eventKey])))"

definition processEvents ::
  "Constants \<Rightarrow> Platform \<Rightarrow> string option \<Rightarrow> string option \<Rightarrow>
   World \<times> NormalizedEvent list \<times> string list \<Rightarrow> IcsEvent list \<Rightarrow>
   World \<times> NormalizedEvent list \<times> string list" where
  "processEvents cs pf prefix defaultTimezone state evs =
     foldl (processEvent cs pf prefix defaultTimezone) state evs"

text \<open>
  The world in which the loop over the parsed events reaches the event at position \<open>i\<close>:
  the first \<open>i\<close> events have been processed.
\<close>

definition worldBefore ::
  "Constants \<Rightarrow> Platform \<Rightarrow> string option \<Rightarrow> string option \<Rightarrow> World \<Rightarrow> IcsEvent list \<Rightarrow>
   nat \<Rightarrow> World" where
  "worldBefore cs pf prefix defaultTimezone w evs i =
     fst (processEvents cs pf prefix defaultTimezone (w, [], []) (take i evs))"

text \<open>
  \<open>createCancelledEventFromState\<close>. The destructuring
  \<open>[stableUid, recurrenceId] = eventKey.split('#')\<close> takes the first two parts.
\<close>

definition createCancelledEventFromState ::
  "Platform \<Rightarrow> World \<Rightarrow> string \<Rightarrow> string option \<Rightarrow> World \<times> NormalizedEvent option" where
  "createCancelledEventFromState pf w eventKey prefix =
     (case getEventState w eventKey prefix of
        None \<Rightarrow> (w, None)
      | Some prevState \<Rightarrow>
          (let (uid', rid) =
                 (if includesStr eventKey ''#''
                  then (splitOn CHR ''#'' eventKey ! 0, Some (splitOn CHR ''#'' eventKey ! 1))
                  else (eventKey, None));
               newSequence = sequence prevState + 1;
               (now, w1) = dateNow w;
               newState = \<lparr>sequence = newSequence, contentHash = ''CANCELLED'', lastSeen = now\<rparr>;
               w2 = saveEventState w1 eventKey newState prefix;
               (today, w3) = dateNow w2;
               ls = createCancelledEventLines pf today uid' newSequence rid
           in (w3,
               Some \<lparr>stableUid = uid', eventSequence = newSequence, isException = truthy rid,
                     recurrenceId = rid, lines = ls\<rparr>)))"

text \<open>One iteration of \<open>for (const oldKey of prevSnapshot.eventKeys)\<close>.\<close>

definition cancelStep ::
  "Platform \<Rightarrow> string option \<Rightarrow> string list \<Rightarrow>
   World \<times> NormalizedEvent list \<Rightarrow> string \<Rightarrow> World \<times> NormalizedEvent list" where
  "cancelStep pf prefix currentKeys state oldKey =
     (case state of (w, normalized) \<Rightarrow>
        if oldKey \<notin> set currentKeys
        then (case createCancelledEventFromState pf w oldKey prefix of
                (w', Some cancelled) \<Rightarrow> (w', normalized @ [cancelled])
              | (w', None) \<Rightarrow> (w', normalized))
        else (w, normalized))"

definition cancelMissing ::
  "Platform \<Rightarrow> string option \<Rightarrow> string list \<Rightarrow>
   World \<times> NormalizedEvent list \<Rightarrow> string list \<Rightarrow> World \<times> NormalizedEvent list" where
  "cancelMissing pf prefix currentKeys state oldKeys =
     foldl (cancelStep pf prefix currentKeys) state oldKeys"

definition normalizeCalendar ::
  "Constants \<Rightarrow> Platform \<Rightarrow> World \<Rightarrow> ParsedCalendar \<Rightarrow> string option \<Rightarrow> string option \<Rightarrow>
   World \<times> NormalizedCalendar" where
  "normalizeCalendar cs pf w parsed prefix defaultTimezone =
     (case processEvents cs pf prefix defaultTimezone (w, [], []) (events parsed) of
        (w1, normalized, currentKeys) \<Rightarrow>
          (let (w2, normalized2) =
                 (case getPreviousSnapshot w1 prefix of
                    None \<Rightarrow> (w1, normalized)
                  | Some prevSnapshot \<Rightarrow>
                      cancelMissing pf prefix currentKeys (w1, normalized)
                        (eventKeys prevSnapshot));
               w3 = saveSnapshotKeys w2 currentKeys prefix
           in (w3,
               \<lparr>headerLines = headerLines parsed, timezoneBlocks = timezoneBlocks parsed,
                events = events parsed, footerLines = footerLines parsed,
                normalizedEvents = normalized2\<rparr>)))"


text \<open>
  What the cancellation of an event key is, in the words of its description: a VEVENT
  with the UID of the key (the key up to its first \<open>#\<close>) at \<open>@calproxy\<close>, with
  \<open>STATUS:CANCELLED\<close>, and with the stored sequence plus one as its SEQUENCE.
\<close>

definition isCancellationOf :: "string \<Rightarrow> nat \<Rightarrow> NormalizedEvent \<Rightarrow> bool" where
  "isCancellationOf k storedSequence c =
     (eventSequence c = storedSequence + 1 \<and>
      stableUid c = takeWhile (\<lambda>x. x \<noteq> CHR ''#'') k \<and>
      lines c ! 1 = ''UID:'' @ takeWhile (\<lambda>x. x \<noteq> CHR ''#'') k @ ''@calproxy'' \<and>
      lines c ! 2 = ''SEQUENCE:'' @ showNat (storedSequence + 1) \<and>
      lines c ! 4 = ''STATUS:CANCELLED'')"

text \<open>
  What a rendering in digits stands for, in the words of the description: the number
  that a character of lowercase hexadecimal notation denotes, and the number that a
  string of decimal digits denotes.
\<close>

definition hexValue :: "char \<Rightarrow> nat" where
  "hexValue c =
     (if CHR ''0'' \<le> c \<and> c \<le> CHR ''9'' then of_char c - 48 else of_char c - 87)"

definition decimalValue :: "string \<Rightarrow> nat" where
  "decimalValue s = foldl (\<lambda>a c. 10 * a + (of_char c - 48)) 0 s"

section \<open>Instances of the parameters\<close>

text \<open>
  Modelled from the spec: an instance of \<open>constants.ts\<close> (not among the sources) for the
  concrete examples, with the four zone names, the fallback zone and the canonical
  property order that the specification and the README list.
\<close>

definition exampleConstants :: Constants where
  "exampleConstants =
     \<lparr>DEFAULT_TIMEZONE = ''America/New_York'',
      MS_TO_IANA_TIMEZONES =
        map_of
          [(''Eastern Standard Time'', ''America/New_York''),
           (''US Eastern Standard Time'', ''America/Indiana/Indianapolis''),
           (''Central Standard Time'', ''America/Chicago''),
           (''Pacific Standard Time'', ''America/Los_Angeles'')],
      PROPERTY_ORDER =
        [''DTSTAMP'', ''DTSTART'', ''DTEND'', ''SUMMARY'', ''DESCRIPTION'', ''LOCATION'',
         ''STATUS'', ''ORGANIZER'', ''ATTENDEE'', ''RECURRENCE-ID'', ''RRULE'', ''EXDATE'',
         ''RDATE'', ''CREATED'', ''LAST-MODIFIED'', ''CATEGORIES'', ''PRIORITY'', ''TRANSP'',
         ''CLASS'']\<rparr>"

text \<open>
  A platform for the concrete examples: a stand-in digest of 32 bytes (the last 32
  bytes of the input in reverse, padded with zeros), the comparison of strings by character code,
  and a calendar that reads every timestamp as a second of 1 June 2024, 09:00.
\<close>

definition examplePlatform :: Platform where
  "examplePlatform =
     \<lparr>sha256 = (\<lambda>s. take 32 (map of_char (rev s) @ replicate 32 0)),
      localeCompare = (\<lambda>a b. if a < b then - 1 else if a = b then 0 else 1),
      toUtc = (\<lambda>ms. \<lparr>utcFullYear = 2024, utcMonth = 5, utcDate = 1, utcHours = 9,
                      utcMinutes = 0, utcSeconds = ms mod 60\<rparr>)\<rparr>"

text \<open>
  The event of scenario S1 as the parser delivers it, a calendar around a list of events,
  and a world with a store that answers, a clock that starts at 1000 and no reading
  taken yet.
\<close>

definition exampleEvent :: IcsEvent where
  "exampleEvent =
     \<lparr>uid = ''X'',
      properties =
        [\<lparr>p_name = ''UID'', p_params = [], p_value = ''X''\<rparr>,
         \<lparr>p_name = ''DTSTAMP'', p_params = [], p_value = ''20240101T000000Z''\<rparr>,
         \<lparr>p_name = ''DTSTART'', p_params = [(''TZID'', ''Eastern Standard Time'')],
          p_value = ''20240601T090000''\<rparr>,
         \<lparr>p_name = ''SUMMARY'', p_params = [], p_value = ''M''\<rparr>,
         \<lparr>p_name = ''ORGANIZER'', p_params = [], p_value = ''O''\<rparr>,
         \<lparr>p_name = ''END'', p_params = [], p_value = ''VEVENT''\<rparr>],
      rawLines = []\<rparr>"

text \<open>The same event after an upstream touch of its volatile properties only.\<close>

definition exampleEventTouched :: IcsEvent where
  "exampleEventTouched =
     \<lparr>uid = ''X'',
      properties =
        [\<lparr>p_name = ''UID'', p_params = [], p_value = ''X''\<rparr>,
         \<lparr>p_name = ''DTSTAMP'', p_params = [], p_value = ''20240202T120000Z''\<rparr>,
         \<lparr>p_name = ''SEQUENCE'', p_params = [], p_value = ''9''\<rparr>,
         \<lparr>p_name = ''DTSTART'', p_params = [(''TZID'', ''Eastern Standard Time'')],
          p_value = ''20240601T090000''\<rparr>,
         \<lparr>p_name = ''SUMMARY'', p_params = [], p_value = ''M''\<rparr>,
         \<lparr>p_name = ''ORGANIZER'', p_params = [], p_value = ''O''\<rparr>,
         \<lparr>p_name = ''LAST-MODIFIED'', p_params = [], p_value = ''20240202T120000Z''\<rparr>,
         \<lparr>p_name = ''END'', p_params = [], p_value = ''VEVENT''\<rparr>],
      rawLines = []\<rparr>"

definition exampleCalendar :: "IcsEvent list \<Rightarrow> ParsedCalendar" where
  "exampleCalendar evs =
     \<lparr>headerLines = [''BEGIN:VCALENDAR''], timezoneBlocks = [], events = evs,
      footerLines = [''END:VCALENDAR'']\<rparr>"

definition exampleWorld :: "(string \<Rightarrow> Json option) \<Rightarrow> World" where
  "exampleWorld store =
     \<lparr>entries = store, getFails = (\<lambda>_. False), putFails = (\<lambda>_. False),
      clock = (\<lambda>n. 1000 + n), ticks = 0\<rparr>"

text \<open>
  Two feeds with one event, which holds an alarm with a SUMMARY of its own. The lines of
  the event are the same in both; the alarm stands behind the SUMMARY of the event in
  the first feed and before it in the second.
\<close>

definition exampleFeedAlarmLast :: string where
  "exampleFeedAlarmLast =
     joinWith CRLF
       [''BEGIN:VCALENDAR'', ''BEGIN:VEVENT'', ''UID:X'', ''DTSTART:20240601T090000'',
        ''SUMMARY:Standup'',
        ''BEGIN:VALARM'', ''ACTION:EMAIL'', ''SUMMARY:Reminder'', ''END:VALARM'',
        ''END:VEVENT'', ''END:VCALENDAR'']"

definition exampleFeedAlarmFirst :: string where
  "exampleFeedAlarmFirst =
     joinWith CRLF
       [''BEGIN:VCALENDAR'', ''BEGIN:VEVENT'', ''UID:X'', ''DTSTART:20240601T090000'',
        ''BEGIN:VALARM'', ''ACTION:EMAIL'', ''SUMMARY:Reminder'', ''END:VALARM'',
        ''SUMMARY:Standup'',
        ''END:VEVENT'', ''END:VCALENDAR'']"

section \<open>Properties\<close>

subsection \<open>Unfolding of lines\<close>

lemma splitLines_nonempty: "splitLines s \<noteq> []"
  by (induction s rule: splitLines.induct) (auto split: list.splits)

text \<open>No line holds a line feed, and without carriage returns the lines joined by LF
  are the input again.\<close>

lemma splitLines_no_LF: "l \<in> set (splitLines s) \<Longrightarrow> LF \<notin> set l"
  by (induction s arbitrary: l rule: splitLines.induct)
     (auto simp: CR_def LF_def split: if_splits list.splits)

lemma splitLines_join: "CR \<notin> set s \<Longrightarrow> joinWith [LF] (splitLines s) = s"
proof (induction s rule: splitLines.induct)
  case 1
  show ?case by simp
next
  case (2 c)
  show ?case by simp
next
  case (3 c d cs)
  obtain l ls where sp: "splitLines (d # cs) = l # ls"
    using splitLines_nonempty [of "d # cs"] by (cases "splitLines (d # cs)") auto
  have ih: "joinWith [LF] (l # ls) = d # cs"
    using 3 sp by (auto split: if_splits)
  show ?case
  proof (cases "c = LF")
    case True
    then show ?thesis using ih sp by simp
  next
    case False
    then have "joinWith [LF] ((c # l) # ls) = c # joinWith [LF] (l # ls)"
      by (cases ls) simp_all
    moreover have "c \<noteq> CR"
      using "3.prems" by auto
    ultimately show ?thesis
      using False sp ih by simp
  qed
qed


lemma unfoldLoop_snoc:
  "unfoldLoop (acc @ [cur]) ls = acc @ joinContinuations cur ls"
proof (induction ls arbitrary: acc cur)
  case Nil
  show ?case by simp
next
  case (Cons l ls)
  show ?case
  proof (cases "isContinuation l")
    case True
    have "unfoldLoop ((acc @ [cur])[length acc := cur @ drop 1 l]) ls
            = acc @ joinContinuations (cur @ drop 1 l) ls"
      using Cons.IH [of acc "cur @ drop 1 l"] by simp
    with True show ?thesis by (simp add: nth_append)
  next
    case False
    have "unfoldLoop ((acc @ [cur]) @ [l]) ls = (acc @ [cur]) @ joinContinuations l ls"
      by (rule Cons.IH)
    with False show ?thesis by simp
  qed
qed

text \<open>
  C8 (amended). \<open>unfoldLines\<close> splits at LF and at CR LF; the first line is kept as it
  is, also when it starts with a space or a tab; every later line that starts with a
  space or a tab is appended to the logical line before it without its first character.
\<close>

theorem unfoldLines_joins_continuations:
  "unfoldLines ics =
     joinContinuations (hd (splitLines ics)) (tl (splitLines ics))"
proof -
  obtain l ls where s: "splitLines ics = l # ls"
    using splitLines_nonempty [of ics] by (cases "splitLines ics") auto
  have "unfoldLoop [] (l # ls) = unfoldLoop ([] @ [l]) ls"
    by simp
  also have "\<dots> = [] @ joinContinuations l ls"
    by (rule unfoldLoop_snoc)
  finally show ?thesis
    by (simp add: unfoldLines_def s)
qed

text \<open>
  C8 as stated fails: a first line that starts with a space is not discarded, it is the
  first line of the result.
\<close>

theorem unfoldLines_leading_continuation_kept:
  "unfoldLines '' X-A:1'' = ['' X-A:1'']"
  by code_simp


subsection \<open>Unterminated blocks in parseIcs\<close>

















subsection \<open>Line folding in the serializer\<close>

text \<open>
  \<open>sortEvents\<close> only reorders: every normalized event is serialized, and once.
\<close>

lemma insertBy_mset: "mset (insertBy cmp x ys) = add_mset x (mset ys)"
  by (induction ys) auto

lemma sortBy_mset: "mset (sortBy cmp xs) = mset xs"
  by (induction xs) (simp_all add: sortBy_def insertBy_mset)

lemma sortEvents_mset: "mset (sortEvents pf evs) = mset evs"
  by (simp add: sortEvents_def Let_def sortBy_mset)

lemma joinWith_Cons: "joinWith sep (x # xs) = x @ concat (map (\<lambda>y. sep @ y) xs)"
  by (induction xs arbitrary: x) auto

lemma chunk_count: "0 < n \<Longrightarrow> (n - 74 + 73) div 74 = (n + 73) div 74 - (1::nat)"
  by (cases "n < 74") auto

lemma upt_chunks:
  "0 < (n::nat) \<Longrightarrow> [0..<(n + 73) div 74] = 0 # map Suc [0..<(n + 73) div 74 - 1]"
proof -
  assume "0 < n"
  then have "0 < (n + 73) div 74" by (simp add: div_greater_zero_iff)
  then obtain m where m: "(n + 73) div 74 = Suc m" by (cases "(n + 73) div 74") auto
  show ?thesis by (simp add: m upt_conv_Cons map_Suc_upt del: upt_Suc)
qed

text \<open>The loop cuts \<open>remaining\<close> into pieces of 74 characters, each behind a space.\<close>

lemma foldLoop_chunks:
  "foldLoop result remaining =
     result @ map (\<lambda>k. '' '' @ take 74 (drop (74 * k) remaining))
                [0..<(length remaining + 73) div 74]"
proof (induction result remaining rule: foldLoop.induct)
  case (1 result remaining)
  show ?case
  proof (cases "length remaining > 0")
    case False
    then show ?thesis by simp
  next
    case True
    have "foldLoop result remaining
            = foldLoop (result @ ['' '' @ take 74 remaining]) (drop 74 remaining)"
      using True by (subst foldLoop.simps) simp
    also have "\<dots> = (result @ ['' '' @ take 74 remaining]) @
        map (\<lambda>k. '' '' @ take 74 (drop (74 * k) (drop 74 remaining)))
          [0..<(length remaining + 73) div 74 - 1]"
      using "1.IH" [OF True] chunk_count [OF True] by simp
    also have "\<dots> = result @ map (\<lambda>k. '' '' @ take 74 (drop (74 * k) remaining))
                (0 # map Suc [0..<(length remaining + 73) div 74 - 1])"
      by (simp add: comp_def add.commute)
    finally show ?thesis
      using upt_chunks [OF True] by simp
  qed
qed

lemma foldLine_long:
  assumes "75 < length line"
  shows "foldLine line =
     take 75 line @
     concat (map (\<lambda>k. CRLF @ '' '' @ take 74 (drop (75 + 74 * k) line))
               [0..<(length line - 75 + 73) div 74])"
proof -
  have "foldLine line = joinWith CRLF (foldLoop [take 75 line] (drop 75 line))"
    using assms by (simp add: foldLine_def)
  also have "\<dots> = joinWith CRLF (take 75 line #
       map (\<lambda>k. '' '' @ take 74 (drop (74 * k) (drop 75 line)))
         [0..<(length line - 75 + 73) div 74])"
    by (subst foldLoop_chunks) simp
  finally show ?thesis
    by (simp add: joinWith_Cons comp_def add.commute)
qed

text \<open>
  C9 (amended). The serialized calendar is the CRLF-join of: the header lines as they
  are, the injected VTIMEZONE (when no block names the default zone), the timezone
  blocks, every line of every event through \<open>foldLine\<close>, and the footer lines as they
  are. \<open>foldLine\<close> leaves a line of at most 75 characters alone; of a longer line the
  first 75 characters stand, and piece \<open>k\<close> (the up to 74 characters from position
  \<open>75 + 74 * k\<close>) follows behind CRLF and one space.
\<close>

theorem serializeCalendar_folds_event_lines:
  "serializeCalendar cs pf parsed defaultTz =
     joinWith CRLF
       (headerLines parsed @
        (if list_ex
              (\<lambda>tzBlock. includesStr tzBlock
                 (''TZID:'' @ orDefault defaultTz (DEFAULT_TIMEZONE cs)))
              (timezoneBlocks parsed)
         then [] else [generateVtimezone (orDefault defaultTz (DEFAULT_TIMEZONE cs))]) @
        map (serializeTzBlock cs) (timezoneBlocks parsed) @
        map foldLine (concat (map lines (sortEvents pf (normalizedEvents parsed)))) @
        footerLines parsed) \<and>
   (length line \<le> 75 \<longrightarrow> foldLine line = line) \<and>
   (75 < length line \<longrightarrow>
      foldLine line =
        take 75 line @
        concat (map (\<lambda>k. CRLF @ '' '' @ take 74 (drop (75 + 74 * k) line))
                  [0..<(length line - 75 + 73) div 74]))"
proof -
  have "concat (map (\<lambda>event. map foldLine (lines event)) evs)
          = map foldLine (concat (map lines evs))" for evs :: "NormalizedEvent list"
    by (induction evs) auto
  then have "serializeCalendar cs pf parsed defaultTz =
     joinWith CRLF
       (headerLines parsed @
        (if list_ex
              (\<lambda>tzBlock. includesStr tzBlock
                 (''TZID:'' @ orDefault defaultTz (DEFAULT_TIMEZONE cs)))
              (timezoneBlocks parsed)
         then [] else [generateVtimezone (orDefault defaultTz (DEFAULT_TIMEZONE cs))]) @
        map (serializeTzBlock cs) (timezoneBlocks parsed) @
        map foldLine (concat (map lines (sortEvents pf (normalizedEvents parsed)))) @
        footerLines parsed)"
    by (simp add: serializeCalendar_def serializeOutput_def Let_def)
  moreover have "length line \<le> 75 \<longrightarrow> foldLine line = line"
    by (simp add: foldLine_def)
  ultimately show ?thesis
    using foldLine_long [of line] by blast
qed

theorem serializeCalendar_folds_event_lines_witness:
  "75 < length (''DESCRIPTION:'' @ replicate 140 CHR ''d'') \<and>
   foldLine (''DESCRIPTION:'' @ replicate 140 CHR ''d'') =
     ''DESCRIPTION:'' @ replicate 63 CHR ''d'' @
     CRLF @ '' '' @ replicate 74 CHR ''d'' @
     CRLF @ '' '' @ replicate 3 CHR ''d'' \<and>
   length ''SUMMARY:Standup'' \<le> 75 \<and>
   foldLine ''SUMMARY:Standup'' = ''SUMMARY:Standup''"
proof -
  have long: "75 < length (''DESCRIPTION:'' @ replicate 140 CHR ''d'')"
    by simp
  have short: "length ''SUMMARY:Standup'' \<le> 75"
    by simp
  have pieces: "take 75 (''DESCRIPTION:'' @ replicate 140 CHR ''d'') @
        concat (map (\<lambda>k. CRLF @ '' '' @
                      take 74 (drop (75 + 74 * k) (''DESCRIPTION:'' @ replicate 140 CHR ''d'')))
                  [0..<(length (''DESCRIPTION:'' @ replicate 140 CHR ''d'') - 75 + 73) div 74])
      = ''DESCRIPTION:'' @ replicate 63 CHR ''d'' @
        CRLF @ '' '' @ replicate 74 CHR ''d'' @
        CRLF @ '' '' @ replicate 3 CHR ''d''"
    by code_simp
  have a: "foldLine (''DESCRIPTION:'' @ replicate 140 CHR ''d'') =
        take 75 (''DESCRIPTION:'' @ replicate 140 CHR ''d'') @
        concat (map (\<lambda>k. CRLF @ '' '' @
                      take 74 (drop (75 + 74 * k) (''DESCRIPTION:'' @ replicate 140 CHR ''d'')))
                  [0..<(length (''DESCRIPTION:'' @ replicate 140 CHR ''d'') - 75 + 73) div 74])"
    using serializeCalendar_folds_event_lines
            [of _ _ _ _ "''DESCRIPTION:'' @ replicate 140 CHR ''d''"] long
    by blast
  have b: "foldLine ''SUMMARY:Standup'' = ''SUMMARY:Standup''"
    using serializeCalendar_folds_event_lines [of _ _ _ _ "''SUMMARY:Standup''"] short
    by blast
  show ?thesis
    using a b long short pieces by simp
qed

text \<open>
  C9 as stated fails: a header line of 83 characters is emitted in one piece, and the
  last line of the output has no CRLF behind it.
\<close>

theorem serializeCalendar_header_not_folded:
  "serializeCalendar exampleConstants examplePlatform
     \<lparr>headerLines = [''BEGIN:VCALENDAR'', ''X-WR-CALNAME:'' @ replicate 70 CHR ''n''],
      timezoneBlocks = [''BEGIN:VTIMEZONE'' @ CRLF @ ''TZID:UTC'' @ CRLF @ ''END:VTIMEZONE''],
      events = [], footerLines = [''END:VCALENDAR''], normalizedEvents = []\<rparr>
     (Some ''UTC'') =
   ''BEGIN:VCALENDAR'' @ CRLF @
   ''X-WR-CALNAME:'' @ replicate 70 CHR ''n'' @ CRLF @
   ''BEGIN:VTIMEZONE'' @ CRLF @ ''TZID:UTC'' @ CRLF @ ''END:VTIMEZONE'' @ CRLF @
   ''END:VCALENDAR''"
  by code_simp


subsection \<open>Datetime properties\<close>

lemma includesStr_char: "includesStr s [c] \<longleftrightarrow> c \<in> set s"
  by (induction s) (auto simp: startsWith_def)

lemma splitOn_nonempty: "splitOn c s \<noteq> []"
  by (induction s) (auto split: list.splits)

lemma splitOn_head: "c \<notin> set d \<Longrightarrow> splitOn c (d @ c # r) = d # splitOn c r"
  by (induction d) (auto split: list.splits)

lemma splitOn_hd: "hd (splitOn c r) = takeWhile (\<lambda>x. x \<noteq> c) r"
  by (induction r) (auto split: list.splits simp: splitOn_nonempty)

lemma cleanValue_T: "CHR ''T'' \<in> set (cleanValue v) \<longleftrightarrow> CHR ''T'' \<in> set v"
proof (cases "endsWith v ''Z''")
  case False
  then show ?thesis by (simp add: cleanValue_def)
next
  case True
  then have "v = take (length v - 1) v @ ''Z''"
    by (auto simp: endsWith_def) (metis append_take_drop_id)
  then have "set v = set (take (length v - 1) v) \<union> {CHR ''Z''}"
    by (metis list.set(1) list.simps(15) set_append sup_commute insert_is_Un)
  with True show ?thesis by (auto simp: cleanValue_def)
qed

lemma parseDateTimeValue_dateOnly:
  "CHR ''T'' \<notin> set v \<Longrightarrow>
     parseDateTimeValue v = \<lparr>date = cleanValue v, time = [], isUtc = False, isDateOnly = True\<rparr>"
  by (simp add: parseDateTimeValue_def includesStr_char cleanValue_T)

lemma parseDateTimeValue_dateTime:
  assumes "cleanValue v = d @ ''T'' @ r" "CHR ''T'' \<notin> set d"
  shows "parseDateTimeValue v =
     \<lparr>date = d, time = takeWhile (\<lambda>c. c \<noteq> CHR ''T'') r, isUtc = endsWith v ''Z'',
      isDateOnly = False\<rparr>"
proof -
  have "splitOn CHR ''T'' (cleanValue v) = d # splitOn CHR ''T'' r"
    using assms splitOn_head [of "CHR ''T''" d r] by simp
  moreover have "splitOn CHR ''T'' r ! 0 = takeWhile (\<lambda>c. c \<noteq> CHR ''T'') r"
    using splitOn_hd [of "CHR ''T''" r] splitOn_nonempty [of "CHR ''T''" r]
    by (simp add: hd_conv_nth)
  ultimately show ?thesis
    using assms(1) by (simp add: parseDateTimeValue_def includesStr_char Let_def)
qed

text \<open>
  C5 (amended). For a DTSTART or DTEND property: a value without \<open>T\<close> is emitted as
  \<open>NAME;VALUE=DATE:\<close> and the value (less a final \<open>Z\<close>); a value whose text before a
  final \<open>Z\<close> is \<open>d T r\<close> (no \<open>T\<close> in \<open>d\<close>) is emitted, with the time \<open>t\<close> being
  \<open>r\<close> up to its first \<open>T\<close>, as \<open>NAME:dTtZ\<close> when the value ends in \<open>Z\<close> and as
  \<open>NAME;TZID=tz:dTt\<close> otherwise, where \<open>tz\<close> is the timezone mapping applied to the
  TZID parameter when that is present and not empty, and applied to the default zone
  otherwise.
\<close>

theorem normalizeProperty_datetime:
  "p_name p = ''DTSTART'' \<or> p_name p = ''DTEND'' \<Longrightarrow>
   (CHR ''T'' \<notin> set (p_value p) \<longrightarrow>
      normalizeProperty cs pf p tz = p_name p @ '';VALUE=DATE:'' @ cleanValue (p_value p)) \<and>
   (cleanValue (p_value p) = d @ ''T'' @ r \<and> CHR ''T'' \<notin> set d \<longrightarrow>
      normalizeProperty cs pf p tz =
        (if endsWith (p_value p) ''Z''
         then p_name p @ '':'' @ d @ ''T'' @ takeWhile (\<lambda>c. c \<noteq> CHR ''T'') r @ ''Z''
         else p_name p @ '';TZID='' @
              normalizeTimezone cs
                (case mapGet (p_params p) ''TZID'' of
                   None \<Rightarrow> tz
                 | Some t \<Rightarrow> if t = [] then tz else t) @
              '':'' @ d @ ''T'' @ takeWhile (\<lambda>c. c \<noteq> CHR ''T'') r))"
proof -
  assume n: "p_name p = ''DTSTART'' \<or> p_name p = ''DTEND''"
  then have np: "normalizeProperty cs pf p tz = normalizeDateTimeProp cs p tz"
    by (simp add: normalizeProperty_def)
  have a: "normalizeDateTimeProp cs p tz = p_name p @ '';VALUE=DATE:'' @ cleanValue (p_value p)"
    if "CHR ''T'' \<notin> set (p_value p)"
    using parseDateTimeValue_dateOnly [OF that] by (simp add: normalizeDateTimeProp_def)
  have b: "normalizeDateTimeProp cs p tz =
        (if endsWith (p_value p) ''Z''
         then p_name p @ '':'' @ d @ ''T'' @ takeWhile (\<lambda>c. c \<noteq> CHR ''T'') r @ ''Z''
         else p_name p @ '';TZID='' @
              normalizeTimezone cs
                (case mapGet (p_params p) ''TZID'' of
                   None \<Rightarrow> tz
                 | Some t \<Rightarrow> if t = [] then tz else t) @
              '':'' @ d @ ''T'' @ takeWhile (\<lambda>c. c \<noteq> CHR ''T'') r)"
    if "cleanValue (p_value p) = d @ ''T'' @ r" "CHR ''T'' \<notin> set d"
    using parseDateTimeValue_dateTime [OF that]
    by (simp add: normalizeDateTimeProp_def tzidOrDefault_def orDefault_def Let_def)
  show ?thesis
    using a b np by simp
qed


theorem normalizeProperty_datetime_witness:
  "normalizeProperty exampleConstants examplePlatform
     \<lparr>p_name = ''DTSTART'', p_params = [(''TZID'', ''Eastern Standard Time'')],
      p_value = ''20240601T090000''\<rparr> ''America/Chicago''
     = ''DTSTART;TZID=America/New_York:20240601T090000'' \<and>
   normalizeProperty exampleConstants examplePlatform
     \<lparr>p_name = ''DTEND'', p_params = [], p_value = ''20240602''\<rparr> ''America/Chicago''
     = ''DTEND;VALUE=DATE:20240602'' \<and>
   normalizeProperty exampleConstants examplePlatform
     \<lparr>p_name = ''DTEND'', p_params = [], p_value = ''20240601T100000Z''\<rparr> ''America/Chicago''
     = ''DTEND:20240601T100000Z''"
proof -
  let ?a = "\<lparr>p_name = ''DTSTART'', p_params = [(''TZID'', ''Eastern Standard Time'')],
             p_value = ''20240601T090000''\<rparr>"
  let ?b = "\<lparr>p_name = ''DTEND'', p_params = [], p_value = ''20240602''\<rparr>"
  let ?c = "\<lparr>p_name = ''DTEND'', p_params = [], p_value = ''20240601T100000Z''\<rparr>"
  have na: "p_name ?a = ''DTSTART'' \<or> p_name ?a = ''DTEND''"
    and nb: "p_name ?b = ''DTSTART'' \<or> p_name ?b = ''DTEND''"
    and nc: "p_name ?c = ''DTSTART'' \<or> p_name ?c = ''DTEND''"
    by simp_all
  have ha: "cleanValue (p_value ?a) = ''20240601'' @ ''T'' @ ''090000'' \<and>
            CHR ''T'' \<notin> set ''20240601''"
    by code_simp
  have hb: "CHR ''T'' \<notin> set (p_value ?b)"
    by simp
  have hc: "cleanValue (p_value ?c) = ''20240601'' @ ''T'' @ ''100000'' \<and>
            CHR ''T'' \<notin> set ''20240601''"
    by code_simp
  have ra: "(if endsWith (p_value ?a) ''Z''
         then p_name ?a @ '':'' @ ''20240601'' @ ''T'' @
              takeWhile (\<lambda>c. c \<noteq> CHR ''T'') ''090000'' @ ''Z''
         else p_name ?a @ '';TZID='' @
              normalizeTimezone exampleConstants
                (case mapGet (p_params ?a) ''TZID'' of
                   None \<Rightarrow> ''America/Chicago''
                 | Some t \<Rightarrow> if t = [] then ''America/Chicago'' else t) @
              '':'' @ ''20240601'' @ ''T'' @ takeWhile (\<lambda>c. c \<noteq> CHR ''T'') ''090000'')
        = ''DTSTART;TZID=America/New_York:20240601T090000''"
    by code_simp
  have rb: "p_name ?b @ '';VALUE=DATE:'' @ cleanValue (p_value ?b) = ''DTEND;VALUE=DATE:20240602''"
    by code_simp
  have rc: "(if endsWith (p_value ?c) ''Z''
         then p_name ?c @ '':'' @ ''20240601'' @ ''T'' @
              takeWhile (\<lambda>c. c \<noteq> CHR ''T'') ''100000'' @ ''Z''
         else p_name ?c @ '';TZID='' @
              normalizeTimezone exampleConstants
                (case mapGet (p_params ?c) ''TZID'' of
                   None \<Rightarrow> ''America/Chicago''
                 | Some t \<Rightarrow> if t = [] then ''America/Chicago'' else t) @
              '':'' @ ''20240601'' @ ''T'' @ takeWhile (\<lambda>c. c \<noteq> CHR ''T'') ''100000'')
        = ''DTEND:20240601T100000Z''"
    by code_simp
  have a: "normalizeProperty exampleConstants examplePlatform ?a ''America/Chicago''
             = ''DTSTART;TZID=America/New_York:20240601T090000''"
    using normalizeProperty_datetime
            [where p = "?a" and d = "''20240601''" and r = "''090000''" and cs = exampleConstants
               and pf = examplePlatform and tz = "''America/Chicago''", OF na] ha ra
    by presburger
  have b: "normalizeProperty exampleConstants examplePlatform ?b ''America/Chicago''
             = ''DTEND;VALUE=DATE:20240602''"
    using normalizeProperty_datetime
            [where p = "?b" and d = "''20240601''" and r = "''090000''" and cs = exampleConstants
               and pf = examplePlatform and tz = "''America/Chicago''", OF nb] hb rb
    by presburger
  have c: "normalizeProperty exampleConstants examplePlatform ?c ''America/Chicago''
             = ''DTEND:20240601T100000Z''"
    using normalizeProperty_datetime
            [where p = "?c" and d = "''20240601''" and r = "''100000''" and cs = exampleConstants
               and pf = examplePlatform and tz = "''America/Chicago''", OF nc] hc rc
    by presburger
  show ?thesis
    using a b c by blast
qed

text \<open>
  C5 as stated fails: the default zone goes through the timezone mapping as well. With
  the Windows name \<open>Eastern Standard Time\<close> as the default zone, a floating DTSTART
  without a TZID parameter is emitted with \<open>TZID=America/New_York\<close>, not with the default
  zone as it is configured.
\<close>

theorem normalizeProperty_default_zone_mapped:
  "normalizeProperty exampleConstants examplePlatform
     \<lparr>p_name = ''DTSTART'', p_params = [], p_value = ''20240601T090000''\<rparr>
     ''Eastern Standard Time''
     = ''DTSTART;TZID=America/New_York:20240601T090000''"
  by code_simp

subsection \<open>EXDATE and RDATE\<close>

text \<open>
  Whatever the parameter, the value is the sorted list of the reassembled entries, joined
  with commas.
\<close>

lemma normalizeExdateRdate_sorted_entries:
  "\<exists>param. normalizeExdateRdate cs p =
      p_name p @ param @ '':'' @
      joinWith '','' (sort (map normalizeEntry (splitOn CHR '','' (p_value p))))"
proof -
  have "normalizeExdateRdate cs p =
      p_name p @ '';VALUE=DATE'' @ '':'' @
      joinWith '','' (sort (map normalizeEntry (splitOn CHR '','' (p_value p)))) \<or>
    normalizeExdateRdate cs p =
      p_name p @ ('';TZID='' @ normalizeTimezone cs (the (mapGet (p_params p) ''TZID''))) @ '':'' @
      joinWith '','' (sort (map normalizeEntry (splitOn CHR '','' (p_value p)))) \<or>
    normalizeExdateRdate cs p =
      p_name p @ [] @ '':'' @
      joinWith '','' (sort (map normalizeEntry (splitOn CHR '','' (p_value p))))"
    by (auto simp: normalizeExdateRdate_def Let_def split: option.splits)
  then show ?thesis by blast
qed


text \<open>
  C6. The code looks only at the first entry of the sorted list: a list that mixes a date
  with a date-time is emitted with \<open>VALUE=DATE\<close> although not all entries are dates, and
  the TZID parameter of the property is dropped although an entry is floating.
\<close>

theorem normalizeExdateRdate_mixed_list:
  "normalizeProperty exampleConstants examplePlatform
     \<lparr>p_name = ''EXDATE'', p_params = [(''TZID'', ''Eastern Standard Time'')],
      p_value = ''20240102T090000,20240101''\<rparr> ''America/New_York''
     = ''EXDATE;VALUE=DATE:20240101,20240102T090000''"
  by code_simp

subsection \<open>RRULE\<close>

text \<open>
  Without a match of \<open>BYSETPOS=(-?\d+)\<close> or of \<open>BYDAY=([A-Z]{2})\<close>, or with a BYDAY
  list, the rule is emitted verbatim.
\<close>

lemma normalizeRrule_verbatim:
  "regexSearch bysetposAt (p_value p) = None \<or> regexSearch bydayAt (p_value p) = None \<or>
   regexSearch bydayListAt (p_value p) \<noteq> None \<Longrightarrow>
     normalizeRrule p = ''RRULE:'' @ p_value p"
  by (auto simp: normalizeRrule_def Let_def split: option.splits prod.splits)


text \<open>Scenario S5 of the specification: the rewrite of a single BYDAY with BYSETPOS.\<close>

lemma normalizeRrule_S5:
  "normalizeProperty exampleConstants examplePlatform
     \<lparr>p_name = ''RRULE'', p_params = [], p_value = ''FREQ=MONTHLY;BYDAY=MO;BYSETPOS=1''\<rparr>
     ''America/New_York''
     = ''RRULE:FREQ=MONTHLY;BYDAY=1MO''"
  by code_simp

text \<open>
  C7. A rule whose BYSETPOS holds a list is neither emitted verbatim nor rewritten to a
  rule with the same meaning: the pattern \<open>BYSETPOS=(-?\d+)\<close> takes the first position
  of the list and leaves the rest of it behind the weekday.
\<close>

theorem normalizeRrule_bysetpos_list:
  "normalizeProperty exampleConstants examplePlatform
     \<lparr>p_name = ''RRULE'', p_params = [], p_value = ''FREQ=MONTHLY;BYDAY=MO;BYSETPOS=1,2''\<rparr>
     ''America/New_York''
     = ''RRULE:FREQ=MONTHLY;BYDAY=1MO,2''"
  by code_simp


subsection \<open>The stable UID\<close>

lemma hexDigit_range: "d < 16 \<Longrightarrow> hexDigit d \<in> set ''0123456789abcdef''"
  unfolding hexDigit_def by (rule nth_mem) simp

lemma byte_bound: "unat (b :: 8 word) < 256"
  using unsigned_less [of b] by simp

lemma hexByte_length: "length (hexByte b) = 2"
  by (simp add: hexByte_def padStart2_def)

lemma hexByte_chars: "set (hexByte b) \<subseteq> set ''0123456789abcdef''"
proof -
  have hi: "unat b div 16 < 16"
    using byte_bound [of b] by simp
  have lo: "unat b mod 16 < 16"
    by simp
  show ?thesis
    using hexDigit_range [OF hi] hexDigit_range [OF lo] hexDigit_range [of "unat b"]
    by (auto simp: hexByte_def padStart2_def)
qed

lemma hex_length: "length (concat (map hexByte bs)) = 2 * length bs"
  by (induction bs) (simp_all add: hexByte_length)

lemma hex_chars: "set (concat (map hexByte bs)) \<subseteq> set ''0123456789abcdef''"
  using hexByte_chars by (induction bs) auto

text \<open>\<open>getProperty\<close> reads the first property of a name.\<close>

lemma valueOrEmpty_find:
  "valueOrEmpty (find (\<lambda>p. p_name p = n) ps) =
     (case map p_value (filter (\<lambda>p. p_name p = n) ps) of [] \<Rightarrow> [] | v # _ \<Rightarrow> v)"
  by (induction ps) (auto simp: valueOrEmpty_def)

text \<open>The two characters of a byte are its high and its low hexadecimal digit.\<close>

lemma hexValue_hexDigit: "d < 16 \<Longrightarrow> hexValue (hexDigit d) = d"
proof -
  have "\<forall>d \<in> set [0..<16]. hexValue (hexDigit d) = d"
    by code_simp
  then show "d < 16 \<Longrightarrow> hexValue (hexDigit d) = d"
    by simp
qed

lemma hexByte_digits: "hexByte b = [hexDigit (unat b div 16), hexDigit (unat b mod 16)]"
  by (simp add: hexByte_def padStart2_def hexDigit_def)

lemma hex_nth:
  "i < length bs \<Longrightarrow>
   concat (map hexByte bs) ! (2 * i) = hexDigit (unat (bs ! i) div 16) \<and>
   concat (map hexByte bs) ! (2 * i + 1) = hexDigit (unat (bs ! i) mod 16)"
proof (induction bs arbitrary: i)
  case Nil
  then show ?case by simp
next
  case (Cons b bs)
  show ?case
  proof (cases i)
    case 0
    then show ?thesis by (simp add: hexByte_digits)
  next
    case (Suc j)
    then have "j < length bs" using Cons.prems by simp
    from Cons.IH [OF this] show ?thesis
      by (simp add: Suc hexByte_digits)
  qed
qed

lemma hex_decode:
  assumes "i < length bs"
  shows "16 * hexValue (concat (map hexByte bs) ! (2 * i)) +
         hexValue (concat (map hexByte bs) ! (2 * i + 1)) = unat (bs ! i)"
proof -
  have hi: "unat (bs ! i) div 16 < 16"
    using byte_bound [of "bs ! i"] by simp
  have lo: "unat (bs ! i) mod 16 < 16"
    by simp
  show ?thesis
    using hex_nth [OF assms] hexValue_hexDigit [OF hi] hexValue_hexDigit [OF lo]
    by simp
qed

text \<open>A permutation keeps the properties of a name that occurs at most once.\<close>

lemma filter_perm_single:
  assumes "mset xs = mset ys" "length (filter P ys) \<le> 1"
  shows "filter P xs = filter P ys"
proof -
  have m: "mset (filter P xs) = mset (filter P ys)"
    using assms(1) by (metis mset_filter)
  show ?thesis
  proof (cases "filter P ys")
    case Nil
    then show ?thesis using m by simp
  next
    case (Cons a as)
    then have "as = []" using assms(2) by simp
    have "mset (filter P xs) = {#a#}"
      unfolding m Cons \<open>as = []\<close> by simp
    then have "filter P xs = [a]"
      by (simp only: mset_single_iff)
    then show ?thesis using Cons \<open>as = []\<close> by simp
  qed
qed

lemma examplePlatform_digest_length: "length (sha256 examplePlatform x) = 32"
  by (simp add: examplePlatform_def)

text \<open>
  C3 (amended). Let the DTSTART, SUMMARY and ORGANIZER value of an event be the value
  of the first property of that name among its properties, and the empty string when
  there is none, and let \<open>digest\<close> be the digest of \<open>DTSTART|SUMMARY|ORGANIZER|uid\<close>.
  \<open>computeStableUid\<close> has two characters for each of the first 16 bytes of the digest,
  32 for a digest of 32 bytes, as SHA-256 is. They are lowercase hexadecimal digits, and
  the two characters at the place of a byte denote that byte, the high digit first. It
  is the same for two events with the same original UID whose DTSTART, SUMMARY and
  ORGANIZER values agree, one by one in their order: the parameters and all other
  properties (the volatile ones among them) do not enter. It is the same for two events
  with the same original UID and the same properties in any order, when each of the
  three names occurs at most once.
\<close>

theorem computeStableUid_spec:
  "(let first = (\<lambda>n. case map p_value (filter (\<lambda>p. p_name p = n) (properties e)) of
                        [] \<Rightarrow> [] | v # _ \<Rightarrow> v);
        digest = sha256 pf (first ''DTSTART'' @ ''|'' @ first ''SUMMARY'' @ ''|'' @
                            first ''ORGANIZER'' @ ''|'' @ uid e);
        u = computeStableUid pf e
    in length u = 2 * min 16 (length digest) \<and>
       set u \<subseteq> set ''0123456789abcdef'' \<and>
       (\<forall>i < min 16 (length digest).
          16 * hexValue (u ! (2 * i)) + hexValue (u ! (2 * i + 1)) = unat (digest ! i)) \<and>
       ((\<forall>x. length (sha256 pf x) = 32) \<longrightarrow> length u = 32)) \<and>
   (uid e' = uid e \<and>
    (\<forall>n \<in> {''DTSTART'', ''SUMMARY'', ''ORGANIZER''}.
       map p_value (filter (\<lambda>p. p_name p = n) (properties e')) =
       map p_value (filter (\<lambda>p. p_name p = n) (properties e)))
    \<longrightarrow> computeStableUid pf e' = computeStableUid pf e) \<and>
   (uid e' = uid e \<and> mset (properties e') = mset (properties e) \<and>
    (\<forall>n \<in> {''DTSTART'', ''SUMMARY'', ''ORGANIZER''}.
       length (filter (\<lambda>p. p_name p = n) (properties e)) \<le> 1)
    \<longrightarrow> computeStableUid pf e' = computeStableUid pf e)"
proof -
  define first where "first ev n =
     (case map p_value (filter (\<lambda>p. p_name p = n) (properties ev)) of
        [] \<Rightarrow> [] | v # _ \<Rightarrow> v)" for ev :: IcsEvent and n
  define digest where "digest ev =
     sha256 pf (first ev ''DTSTART'' @ ''|'' @ first ev ''SUMMARY'' @ ''|'' @
                first ev ''ORGANIZER'' @ ''|'' @ uid ev)" for ev
  have formula: "computeStableUid pf ev = concat (map hexByte (take 16 (digest ev)))" for ev
    by (simp add: computeStableUid_def Let_def getProperty_def valueOrEmpty_find
          digest_def first_def)
  have len: "length (computeStableUid pf e) = 2 * min 16 (length (digest e))"
    unfolding formula by (simp add: hex_length min.commute)
  have chars: "set (computeStableUid pf e) \<subseteq> set ''0123456789abcdef''"
    unfolding formula by (rule hex_chars)
  have dec: "16 * hexValue (computeStableUid pf e ! (2 * i)) +
             hexValue (computeStableUid pf e ! (2 * i + 1)) = unat (digest e ! i)"
    if "i < min 16 (length (digest e))" for i
  proof -
    have "i < length (take 16 (digest e))"
      using that by simp
    from hex_decode [OF this] show ?thesis
      unfolding formula using that by simp
  qed
  have len32: "length (computeStableUid pf e) = 32" if "\<forall>x. length (sha256 pf x) = 32"
    unfolding len using that by (simp add: digest_def)
  have same: "computeStableUid pf e' = computeStableUid pf e"
    if u: "uid e' = uid e"
      and v: "\<forall>n \<in> {''DTSTART'', ''SUMMARY'', ''ORGANIZER''}.
         map p_value (filter (\<lambda>p. p_name p = n) (properties e')) =
         map p_value (filter (\<lambda>p. p_name p = n) (properties e))"
  proof -
    have "first e' n = first e n"
      if "n \<in> {''DTSTART'', ''SUMMARY'', ''ORGANIZER''}" for n
      using v that by (simp only: first_def)
    then have "digest e' = digest e"
      using u by (simp add: digest_def)
    then show ?thesis
      by (simp only: formula)
  qed
  have perm: "computeStableUid pf e' = computeStableUid pf e"
    if u: "uid e' = uid e" and m: "mset (properties e') = mset (properties e)"
      and o: "\<forall>n \<in> {''DTSTART'', ''SUMMARY'', ''ORGANIZER''}.
         length (filter (\<lambda>p. p_name p = n) (properties e)) \<le> 1"
  proof (rule same [OF u], rule ballI)
    fix n :: string
    assume "n \<in> {''DTSTART'', ''SUMMARY'', ''ORGANIZER''}"
    then have "length (filter (\<lambda>p. p_name p = n) (properties e)) \<le> 1"
      using o by blast
    from filter_perm_single [OF m this]
    show "map p_value (filter (\<lambda>p. p_name p = n) (properties e')) =
          map p_value (filter (\<lambda>p. p_name p = n) (properties e))"
      by simp
  qed
  show ?thesis
    unfolding Let_def first_def [symmetric] digest_def [symmetric]
    using len chars dec len32 same perm by blast
qed

theorem computeStableUid_spec_witness:
  "computeStableUid examplePlatform exampleEvent = ''587c4f7c4d7c30303030393054313036'' \<and>
   sha256 examplePlatform ''20240601T090000|M|O|X'' ! 0 = 0x58 \<and>
   16 * hexValue CHR ''5'' + hexValue CHR ''8'' = unat (0x58 :: 8 word) \<and>
   sha256 examplePlatform ''20240601T090000|M|O|X'' ! 2 = 0x4f \<and>
   16 * hexValue CHR ''4'' + hexValue CHR ''f'' = unat (0x4f :: 8 word) \<and>
   length (computeStableUid examplePlatform exampleEvent) = 32 \<and>
   computeStableUid examplePlatform
     \<lparr>uid = ''X'',
      properties =
        [\<lparr>p_name = ''ORGANIZER'', p_params = [(''CN'', ''Olga'')], p_value = ''O''\<rparr>,
         \<lparr>p_name = ''SUMMARY'', p_params = [], p_value = ''M''\<rparr>,
         \<lparr>p_name = ''SEQUENCE'', p_params = [], p_value = ''3''\<rparr>,
         \<lparr>p_name = ''DTSTART'', p_params = [], p_value = ''20240601T090000''\<rparr>],
      rawLines = []\<rparr> =
   computeStableUid examplePlatform exampleEvent \<and>
   computeStableUid examplePlatform
     (exampleEvent\<lparr>properties := rev (properties exampleEvent)\<rparr>) =
   computeStableUid examplePlatform exampleEvent"
proof -
  let ?e' = "\<lparr>uid = ''X'',
      properties =
        [\<lparr>p_name = ''ORGANIZER'', p_params = [(''CN'', ''Olga'')], p_value = ''O''\<rparr>,
         \<lparr>p_name = ''SUMMARY'', p_params = [], p_value = ''M''\<rparr>,
         \<lparr>p_name = ''SEQUENCE'', p_params = [], p_value = ''3''\<rparr>,
         \<lparr>p_name = ''DTSTART'', p_params = [], p_value = ''20240601T090000''\<rparr>],
      rawLines = []\<rparr>"
  let ?e'' = "exampleEvent\<lparr>properties := rev (properties exampleEvent)\<rparr>"
  let ?D = "sha256 examplePlatform ''20240601T090000|M|O|X''"
  have input:
    "(case map p_value (filter (\<lambda>p. p_name p = ''DTSTART'') (properties exampleEvent)) of
        [] \<Rightarrow> [] | v # _ \<Rightarrow> v) @ ''|'' @
     (case map p_value (filter (\<lambda>p. p_name p = ''SUMMARY'') (properties exampleEvent)) of
        [] \<Rightarrow> [] | v # _ \<Rightarrow> v) @ ''|'' @
     (case map p_value (filter (\<lambda>p. p_name p = ''ORGANIZER'') (properties exampleEvent)) of
        [] \<Rightarrow> [] | v # _ \<Rightarrow> v) @ ''|'' @ uid exampleEvent = ''20240601T090000|M|O|X''"
    by (simp add: exampleEvent_def)
  have u: "computeStableUid examplePlatform exampleEvent = ''587c4f7c4d7c30303030393054313036''"
    by code_simp
  have d: "length ?D = 32" "?D ! 0 = 0x58" "?D ! 2 = 0x4f"
    by code_simp+
  have d32: "\<forall>x. length (sha256 examplePlatform x) = 32"
    by (simp add: examplePlatform_digest_length)
  have same: "uid ?e' = uid exampleEvent \<and>
     (\<forall>n \<in> {''DTSTART'', ''SUMMARY'', ''ORGANIZER''}.
       map p_value (filter (\<lambda>p. p_name p = n) (properties ?e')) =
       map p_value (filter (\<lambda>p. p_name p = n) (properties exampleEvent)))"
    by (simp add: exampleEvent_def)
  have perm: "uid ?e'' = uid exampleEvent \<and>
     mset (properties ?e'') = mset (properties exampleEvent) \<and>
     (\<forall>n \<in> {''DTSTART'', ''SUMMARY'', ''ORGANIZER''}.
       length (filter (\<lambda>p. p_name p = n) (properties exampleEvent)) \<le> 1)"
    by (simp add: exampleEvent_def)
  note S1 = computeStableUid_spec
              [where pf = examplePlatform and e = exampleEvent and e' = "?e'",
               unfolded Let_def input]
  note S2 = computeStableUid_spec
              [where pf = examplePlatform and e = exampleEvent and e' = "?e''",
               unfolded Let_def input]
  have dec: "\<forall>i < min 16 (length ?D).
          16 * hexValue (computeStableUid examplePlatform exampleEvent ! (2 * i)) +
          hexValue (computeStableUid examplePlatform exampleEvent ! (2 * i + 1)) = unat (?D ! i)"
    using S1 by blast
  have d0: "16 * hexValue CHR ''5'' + hexValue CHR ''8'' = unat (0x58 :: 8 word)"
    using dec [rule_format, of 0] d by (simp add: u)
  have d3: "16 * hexValue CHR ''4'' + hexValue CHR ''f'' = unat (0x4f :: 8 word)"
    using dec [rule_format, of 2] d by (simp add: u)
  have l: "length (computeStableUid examplePlatform exampleEvent) = 32"
    using S1 d32 by blast
  have s: "computeStableUid examplePlatform ?e' = computeStableUid examplePlatform exampleEvent"
    using S1 same by blast
  have p: "computeStableUid examplePlatform ?e'' = computeStableUid examplePlatform exampleEvent"
    using S2 perm by blast
  show ?thesis
    using u d(2,3) d0 d3 l s p by blast
qed

text \<open>
  C3 as stated fails: the stable UID is not independent of the order of the properties
  when a name occurs twice. The parser puts the lines of a nested VALARM among the
  properties of its event, and \<open>getProperty\<close> reads the first SUMMARY it finds: for the
  same lines, the alarm before or behind the SUMMARY of the event, the stable UIDs
  differ.
\<close>

theorem computeStableUid_depends_on_order:
  "length (events (parseIcs exampleFeedAlarmLast)) = 1 \<and>
   length (events (parseIcs exampleFeedAlarmFirst)) = 1 \<and>
   uid (hd (events (parseIcs exampleFeedAlarmFirst))) =
   uid (hd (events (parseIcs exampleFeedAlarmLast))) \<and>
   mset (properties (hd (events (parseIcs exampleFeedAlarmFirst)))) =
   mset (properties (hd (events (parseIcs exampleFeedAlarmLast)))) \<and>
   valueOrEmpty (getProperty (hd (events (parseIcs exampleFeedAlarmLast))) ''SUMMARY'') =
     ''Standup'' \<and>
   valueOrEmpty (getProperty (hd (events (parseIcs exampleFeedAlarmFirst))) ''SUMMARY'') =
     ''Reminder'' \<and>
   computeStableUid examplePlatform (hd (events (parseIcs exampleFeedAlarmLast))) =
     ''587c7c7075646e6174537c3030303039'' \<and>
   computeStableUid examplePlatform (hd (events (parseIcs exampleFeedAlarmFirst))) =
     ''587c7c7265646e696d65527c30303030''"
  by code_simp


subsection \<open>The reconciler: sequence numbers\<close>

lemma kvKey_event_inj:
  "eventStateKey prefix a = eventStateKey prefix b \<longleftrightarrow> a = b"
  by (auto simp: eventStateKey_def kvKey_def split: option.splits)

lemma kvKey_event_snapshot: "eventStateKey prefix a \<noteq> snapshotKeysKey prefix"
  by (auto simp: eventStateKey_def snapshotKeysKey_def kvKey_def split: option.splits)

text \<open>What one iteration does to the three variables of the loop.\<close>

lemma processEvent_eq:
  "processEvent cs pf prefix tz (w, ns, ks) e =
     (saveEventState (w\<lparr>ticks := Suc (ticks w)\<rparr>) (eventKeyOf pf e)
        \<lparr>sequence = nextSequence (getEventState w (eventKeyOf pf e) prefix)
                      (computeContentHash pf e),
         contentHash = computeContentHash pf e, lastSeen = clock w (ticks w)\<rparr> prefix,
      ns @ [\<lparr>stableUid = computeStableUid pf e,
             eventSequence = nextSequence (getEventState w (eventKeyOf pf e) prefix)
                               (computeContentHash pf e),
             isException = (getProperty e ''RECURRENCE-ID'' \<noteq> None),
             recurrenceId =
               (case getProperty e ''RECURRENCE-ID'' of
                  None \<Rightarrow> None
                | Some rp \<Rightarrow> if p_value rp = [] then None else Some (p_value rp)),
             lines = normalizeEventLines cs pf e (computeStableUid pf e)
                       (nextSequence (getEventState w (eventKeyOf pf e) prefix)
                          (computeContentHash pf e)) tz\<rparr>],
      ks @ [eventKeyOf pf e])"
  by (simp add: processEvent_def dateNow_def Let_def)

lemma processEvents_snoc:
  "processEvents cs pf prefix tz st (xs @ [x]) =
     processEvent cs pf prefix tz (processEvents cs pf prefix tz st xs) x"
  by (simp add: processEvents_def)

lemma processEvents_Nil: "processEvents cs pf prefix tz st [] = st"
  by (simp add: processEvents_def)

lemma saveEventState_frame:
  "getFails (saveEventState w k st prefix) = getFails w"
  "putFails (saveEventState w k st prefix) = putFails w"
  "clock (saveEventState w k st prefix) = clock w"
  "ticks (saveEventState w k st prefix) = ticks w"
  by (simp_all add: saveEventState_def Let_def)

lemma saveEventState_entries:
  "entries (saveEventState w k st prefix) key =
     (if key = eventStateKey prefix k \<and> \<not> putFails w key
      then Some (EventStateDoc st) else entries w key)"
  by (auto simp: saveEventState_def Let_def)

text \<open>
  The shape of the loop's state after the events \<open>xs\<close>: one normalized event and one key
  per event, one reading of the clock per event, and the failing keys as they were.
\<close>

lemma processEvents_shape:
  "\<exists>W N. processEvents cs pf prefix tz (w, ns, ks) xs = (W, ns @ N, ks @ map (eventKeyOf pf) xs) \<and>
         length N = length xs \<and> getFails W = getFails w \<and> putFails W = putFails w \<and>
         clock W = clock w \<and> ticks W = ticks w + length xs"
proof (induction xs rule: rev_induct)
  case Nil
  show ?case by (simp add: processEvents_Nil)
next
  case (snoc x xs)
  then obtain W N where
    st: "processEvents cs pf prefix tz (w, ns, ks) xs = (W, ns @ N, ks @ map (eventKeyOf pf) xs)"
    and inv: "length N = length xs" "getFails W = getFails w" "putFails W = putFails w"
      "clock W = clock w" "ticks W = ticks w + length xs"
    by blast
  show ?case
    unfolding processEvents_snoc st processEvent_eq
    using inv by (simp add: saveEventState_frame)
qed


lemma getEventState_cong:
  "getFails W = getFails w \<Longrightarrow>
   entries W (eventStateKey prefix k) = entries w (eventStateKey prefix k) \<Longrightarrow>
   getEventState W k prefix = getEventState w k prefix"
  by (simp add: getEventState_def Let_def)

text \<open>The loop writes under the keys of its events only.\<close>

lemma processEvents_entries:
  "(\<forall>x \<in> set xs. key \<noteq> eventStateKey prefix (eventKeyOf pf x)) \<Longrightarrow>
   entries (fst (processEvents cs pf prefix tz (w, ns, ks) xs)) key = entries w key"
proof (induction xs rule: rev_induct)
  case Nil
  show ?case by (simp add: processEvents_Nil)
next
  case (snoc x xs)
  obtain W N where
    st: "processEvents cs pf prefix tz (w, ns, ks) xs = (W, ns @ N, ks @ map (eventKeyOf pf) xs)"
    using processEvents_shape [of cs pf prefix tz w ns ks xs] by blast
  have "entries W key = entries w key"
    using snoc st by simp
  then show ?case
    unfolding processEvents_snoc st processEvent_eq
    using snoc.prems by (simp add: saveEventState_entries)
qed

lemma processEvents_getFails:
  "getFails (fst (processEvents cs pf prefix tz (w, ns, ks) xs)) = getFails w"
  using processEvents_shape [of cs pf prefix tz w ns ks xs] by auto

lemma processEvents_getEventState:
  assumes "k \<notin> eventKeyOf pf ` set xs"
  shows "getEventState (fst (processEvents cs pf prefix tz (w, ns, ks) xs)) k prefix
           = getEventState w k prefix"
proof (rule getEventState_cong)
  show "getFails (fst (processEvents cs pf prefix tz (w, ns, ks) xs)) = getFails w"
    by (rule processEvents_getFails)
  have "\<forall>x \<in> set xs. eventStateKey prefix k \<noteq> eventStateKey prefix (eventKeyOf pf x)"
    using assms kvKey_event_inj by blast
  then show "entries (fst (processEvents cs pf prefix tz (w, ns, ks) xs))
               (eventStateKey prefix k) = entries w (eventStateKey prefix k)"
    by (rule processEvents_entries)
qed

lemma processEvents_getPreviousSnapshot:
  "getPreviousSnapshot (fst (processEvents cs pf prefix tz (w, ns, ks) xs)) prefix
     = getPreviousSnapshot w prefix"
proof -
  have "\<forall>x \<in> set xs. snapshotKeysKey prefix
          \<noteq> eventStateKey prefix (eventKeyOf pf x)"
    using kvKey_event_snapshot by metis
  then have "entries (fst (processEvents cs pf prefix tz (w, ns, ks) xs))
               (snapshotKeysKey prefix) = entries w (snapshotKeysKey prefix)"
    by (rule processEvents_entries)
  then show ?thesis
    by (simp add: getPreviousSnapshot_def Let_def processEvents_getFails)
qed

text \<open>The second loop only appends to the normalized events.\<close>

lemma cancelStep_appends:
  "\<exists>W C. cancelStep pf prefix ks (w, ns) k = (W, ns @ C)"
  by (cases "createCancelledEventFromState pf w k prefix")
     (auto simp: cancelStep_def split: option.splits)

lemma cancelMissing_appends:
  "\<exists>W C. cancelMissing pf prefix ks (w, ns) keys = (W, ns @ C)"
proof (induction keys rule: rev_induct)
  case Nil
  show ?case by (simp add: cancelMissing_def)
next
  case (snoc k keys)
  then obtain W C where st: "cancelMissing pf prefix ks (w, ns) keys = (W, ns @ C)"
    by blast
  obtain W' C' where "cancelStep pf prefix ks (W, ns @ C) k = (W', (ns @ C) @ C')"
    using cancelStep_appends [of pf prefix ks W "ns @ C" k] by blast
  then show ?case
    using st by (simp add: cancelMissing_def)
qed

lemma normalizeCalendar_appends:
  assumes "processEvents cs pf prefix tz (w, [], []) (events parsed) = (w1, ns, ks)"
  shows "\<exists>C. normalizedEvents (snd (normalizeCalendar cs pf w parsed prefix tz)) = ns @ C"
proof (cases "getPreviousSnapshot w1 prefix")
  case None
  then show ?thesis
    using assms by (simp add: normalizeCalendar_def Let_def)
next
  case (Some snap)
  obtain W C where "cancelMissing pf prefix ks (w1, ns) (eventKeys snap) = (W, ns @ C)"
    using cancelMissing_appends [of pf prefix ks w1 ns "eventKeys snap"] by blast
  then show ?thesis
    using assms Some by (simp add: normalizeCalendar_def Let_def)
qed

lemma normalizeEventLines_sequence_line:
  "normalizeEventLines cs pf e u n tz ! 2 = ''SEQUENCE:'' @ showNat n"
  by (simp add: normalizeEventLines_def Let_def)

text \<open>
  The store at return: in the second loop \<open>if (!currentKeys.has(oldKey))\<close> keeps the
  records of the current keys as the first loop left them, and the snapshot is written
  under a key that is no event key.
\<close>

lemma saveSnapshotKeys_entries:
  "key \<noteq> snapshotKeysKey prefix \<Longrightarrow>
     entries (saveSnapshotKeys w ks prefix) key = entries w key"
  by (simp add: saveSnapshotKeys_def dateNow_def Let_def)

lemma createCancelled_entries_other:
  "key \<noteq> eventStateKey prefix k \<Longrightarrow>
   entries (fst (createCancelledEventFromState pf w k prefix)) key = entries w key"
  by (simp add: createCancelledEventFromState_def dateNow_def Let_def saveEventState_entries
        split: option.splits prod.splits)

lemma cancelStep_entries_current:
  assumes "k \<in> set ks"
  shows "entries (fst (cancelStep pf prefix ks (w, ns) oldKey)) (eventStateKey prefix k)
           = entries w (eventStateKey prefix k)"
proof (cases "oldKey \<in> set ks")
  case True
  then show ?thesis by (simp add: cancelStep_def)
next
  case False
  then have "oldKey \<noteq> k" using assms by blast
  then have "eventStateKey prefix k \<noteq> eventStateKey prefix oldKey"
    by (simp add: kvKey_event_inj)
  from createCancelled_entries_other [OF this, of pf w]
  show ?thesis
    using False by (auto simp: cancelStep_def split: prod.splits option.splits)
qed

lemma cancelMissing_entries_current:
  assumes "k \<in> set ks"
  shows "entries (fst (cancelMissing pf prefix ks st keys)) (eventStateKey prefix k)
           = entries (fst st) (eventStateKey prefix k)"
proof (induction keys rule: rev_induct)
  case Nil
  show ?case by (simp add: cancelMissing_def)
next
  case (snoc x keys)
  obtain W N where st: "cancelMissing pf prefix ks st keys = (W, N)"
    by (cases "cancelMissing pf prefix ks st keys")
  have "cancelMissing pf prefix ks st (keys @ [x]) = cancelStep pf prefix ks (W, N) x"
    by (simp add: cancelMissing_def st [unfolded cancelMissing_def])
  then show ?case
    using cancelStep_entries_current [OF assms, of pf prefix W N x] snoc st by simp
qed

lemma normalizeCalendar_entries_current:
  assumes "processEvents cs pf prefix tz (w, [], []) (events parsed) = (w1, ns, ks)"
    and "k \<in> set ks"
  shows "entries (fst (normalizeCalendar cs pf w parsed prefix tz)) (eventStateKey prefix k)
           = entries w1 (eventStateKey prefix k)"
proof -
  have s: "entries (saveSnapshotKeys W ks prefix) (eventStateKey prefix k)
             = entries W (eventStateKey prefix k)" for W
    by (rule saveSnapshotKeys_entries) (rule kvKey_event_snapshot)
  show ?thesis
  proof (cases "getPreviousSnapshot w1 prefix")
    case None
    then show ?thesis
      using assms(1) by (simp add: normalizeCalendar_def Let_def s)
  next
    case (Some snap)
    obtain W N where c: "cancelMissing pf prefix ks (w1, ns) (eventKeys snap) = (W, N)"
      by (cases "cancelMissing pf prefix ks (w1, ns) (eventKeys snap)")
    have "entries W (eventStateKey prefix k) = entries w1 (eventStateKey prefix k)"
      using cancelMissing_entries_current [OF assms(2), of pf prefix "(w1, ns)" "eventKeys snap"] c
      by simp
    then show ?thesis
      using assms(1) Some c by (simp add: normalizeCalendar_def Let_def s)
  qed
qed

text \<open>The digits of \<open>showNat\<close> denote the number.\<close>

lemma decimalValue_showNat: "decimalValue (showNat n) = n"
proof (induction n rule: showNat.induct)
  case (1 n)
  show ?case
  proof (cases "n < 10")
    case True
    then show ?thesis
      by (subst showNat.simps) (simp add: decimalValue_def)
  next
    case False
    have d: "of_char (char_of (48 + n mod 10)) = 48 + n mod 10"
    proof -
      have "48 + n mod 10 < 256" by simp
      then show ?thesis by simp
    qed
    have "decimalValue (showNat n) = 10 * decimalValue (showNat (n div 10)) + n mod 10"
      using False d by (subst showNat.simps) (simp add: decimalValue_def)
    then show ?thesis
      using 1 False by simp
  qed
qed

text \<open>
  C1. For the parsed event at position \<open>i\<close>, with \<open>before\<close> the world in which the loop
  reaches it: without a prior state record for its event key the emitted sequence is 0;
  with a record of the same content hash it is the stored sequence; with a record of
  another content hash it is the stored sequence plus one. The third line of the
  emitted VEVENT is \<open>SEQUENCE:\<close> and the decimal digits of that number. Unless the store
  refuses the write, the record of the key is, once the event is processed, the emitted
  sequence, the new content hash and the reading of the clock taken for this event; and
  it is still that record in the store that \<open>normalizeCalendar\<close> returns, when no later
  event of the feed has the same key (a later one rewrites it in its turn). When no
  earlier event of the feed has the same key, the prior record is the one of the world
  in which \<open>normalizeCalendar\<close> started.
\<close>

theorem normalizeCalendar_event_sequence:
  "i < length (events parsed) \<Longrightarrow>
   (let e = events parsed ! i;
        key = eventKeyOf pf e;
        h = computeContentHash pf e;
        before = worldBefore cs pf prefix tz w (events parsed) i;
        after = worldBefore cs pf prefix tz w (events parsed) (Suc i);
        result = normalizeCalendar cs pf w parsed prefix tz;
        ne = normalizedEvents (snd result) ! i;
        written = Some (EventStateDoc \<lparr>sequence = eventSequence ne, contentHash = h,
                                        lastSeen = clock w (ticks w + i)\<rparr>)
    in (getEventState before key prefix = None \<longrightarrow> eventSequence ne = 0) \<and>
       (\<forall>st. getEventState before key prefix = Some st \<and> contentHash st = h
              \<longrightarrow> eventSequence ne = sequence st) \<and>
       (\<forall>st. getEventState before key prefix = Some st \<and> contentHash st \<noteq> h
              \<longrightarrow> eventSequence ne = sequence st + 1) \<and>
       lines ne ! 2 = ''SEQUENCE:'' @ showNat (eventSequence ne) \<and>
       decimalValue (drop 9 (lines ne ! 2)) = eventSequence ne \<and>
       (\<not> putFails w (eventStateKey prefix key) \<longrightarrow>
          entries after (eventStateKey prefix key) = written) \<and>
       (\<not> putFails w (eventStateKey prefix key) \<and>
        (\<forall>j. i < j \<and> j < length (events parsed)
              \<longrightarrow> eventKeyOf pf (events parsed ! j) \<noteq> key) \<longrightarrow>
          entries (fst result) (eventStateKey prefix key) = written) \<and>
       ((\<forall>j < i. eventKeyOf pf (events parsed ! j) \<noteq> key) \<longrightarrow>
          getEventState before key prefix = getEventState w key prefix))"
proof -
  assume i: "i < length (events parsed)"
  define evs where "evs = events parsed"
  define e where "e = evs ! i"
  define key where "key = eventKeyOf pf e"
  define h where "h = computeContentHash pf e"
  define sq where "sq = nextSequence
     (getEventState (worldBefore cs pf prefix tz w evs i) key prefix) h"
  obtain W N where
    before: "processEvents cs pf prefix tz (w, [], []) (take i evs)
               = (W, [] @ N, [] @ map (eventKeyOf pf) (take i evs))"
    and inv: "length N = length (take i evs)" "getFails W = getFails w"
      "putFails W = putFails w" "clock W = clock w" "ticks W = ticks w + length (take i evs)"
    using processEvents_shape [of cs pf prefix tz w "[]" "[]" "take i evs"] by blast
  have W: "worldBefore cs pf prefix tz w evs i = W"
    by (simp add: worldBefore_def before)
  have lenN: "length N = i"
    using inv(1) i by (simp add: evs_def)
  have tk: "take (Suc i) evs = take i evs @ [e]"
    using i by (simp add: take_Suc_conv_app_nth e_def evs_def)
  define ne where "ne =
     \<lparr>stableUid = computeStableUid pf e, eventSequence = sq,
      isException = (getProperty e ''RECURRENCE-ID'' \<noteq> None),
      recurrenceId =
        (case getProperty e ''RECURRENCE-ID'' of
           None \<Rightarrow> None
         | Some rp \<Rightarrow> if p_value rp = [] then None else Some (p_value rp)),
      lines = normalizeEventLines cs pf e (computeStableUid pf e) sq tz\<rparr>"
  define W' where "W' = saveEventState (W\<lparr>ticks := Suc (ticks W)\<rparr>) key
        \<lparr>sequence = sq, contentHash = h, lastSeen = clock W (ticks W)\<rparr> prefix"
  have after: "processEvents cs pf prefix tz (w, [], []) (take (Suc i) evs)
                 = (W', N @ [ne], map (eventKeyOf pf) (take i evs) @ [key])"
    unfolding tk processEvents_snoc before
    by (simp add: processEvent_eq W'_def ne_def sq_def W key_def h_def)
  have W'': "worldBefore cs pf prefix tz w evs (Suc i) = W'"
    by (simp add: worldBefore_def after)
  have rest: "processEvents cs pf prefix tz (w, [], []) evs
          = processEvents cs pf prefix tz
              (W', N @ [ne], map (eventKeyOf pf) (take i evs) @ [key]) (drop (Suc i) evs)"
    using after
    by (metis append_take_drop_id foldl_append processEvents_def)
  then obtain W2 N2 where
    full: "processEvents cs pf prefix tz (w, [], []) evs
             = (W2, (N @ [ne]) @ N2,
                (map (eventKeyOf pf) (take i evs) @ [key]) @
                map (eventKeyOf pf) (drop (Suc i) evs))"
    using processEvents_shape [of cs pf prefix tz W' "N @ [ne]"
            "map (eventKeyOf pf) (take i evs) @ [key]" "drop (Suc i) evs"]
    by auto
  obtain C where
    "normalizedEvents (snd (normalizeCalendar cs pf w parsed prefix tz))
       = ((N @ [ne]) @ N2) @ C"
    using normalizeCalendar_appends [OF full [unfolded evs_def]] by blast
  then have nth: "normalizedEvents (snd (normalizeCalendar cs pf w parsed prefix tz)) ! i = ne"
    using lenN by (simp add: nth_append)
  have seq: "eventSequence ne = sq" and ln: "lines ne ! 2 = ''SEQUENCE:'' @ showNat sq"
    by (simp_all add: ne_def normalizeEventLines_sequence_line)
  have "drop 9 (''SEQUENCE:'' @ xs) = xs" for xs :: string
    by simp
  then have dv: "decimalValue (drop 9 (lines ne ! 2)) = sq"
    unfolding ln by (simp only: decimalValue_showNat)
  have written: "entries W' (eventStateKey prefix key) =
        Some (EventStateDoc \<lparr>sequence = sq, contentHash = h,
                             lastSeen = clock w (ticks w + i)\<rparr>)"
    if "\<not> putFails w (eventStateKey prefix key)"
    using that inv lenN by (simp add: W'_def saveEventState_entries)
  have final: "entries (fst (normalizeCalendar cs pf w parsed prefix tz))
                 (eventStateKey prefix key) =
        Some (EventStateDoc \<lparr>sequence = sq, contentHash = h,
                             lastSeen = clock w (ticks w + i)\<rparr>)"
    if p: "\<not> putFails w (eventStateKey prefix key)"
      and l: "\<forall>j. i < j \<and> j < length evs \<longrightarrow> eventKeyOf pf (evs ! j) \<noteq> key"
  proof -
    have later: "\<forall>x \<in> set (drop (Suc i) evs).
              eventStateKey prefix key \<noteq> eventStateKey prefix (eventKeyOf pf x)"
    proof
      fix x
      assume "x \<in> set (drop (Suc i) evs)"
      then obtain m where m: "m < length (drop (Suc i) evs)" "x = drop (Suc i) evs ! m"
        by (auto simp: in_set_conv_nth)
      then have "x = evs ! (Suc i + m)" "Suc i + m < length evs"
        by simp_all
      then have "eventKeyOf pf x \<noteq> key"
        using l by simp
      then show "eventStateKey prefix key \<noteq> eventStateKey prefix (eventKeyOf pf x)"
        by (simp add: kvKey_event_inj)
    qed
    have "W2 = fst (processEvents cs pf prefix tz
              (W', N @ [ne], map (eventKeyOf pf) (take i evs) @ [key]) (drop (Suc i) evs))"
      using rest full by (metis fst_conv)
    then have w2: "entries W2 (eventStateKey prefix key) = entries W' (eventStateKey prefix key)"
      using processEvents_entries [OF later] by simp
    have "key \<in> set ((map (eventKeyOf pf) (take i (events parsed)) @ [key]) @
                map (eventKeyOf pf) (drop (Suc i) (events parsed)))"
      by simp
    from normalizeCalendar_entries_current [OF full [unfolded evs_def] this]
    show ?thesis
      using w2 written [OF p] by simp
  qed
  have frame: "getEventState W key prefix = getEventState w key prefix"
    if "\<forall>j < i. eventKeyOf pf (evs ! j) \<noteq> key"
  proof -
    have "key \<notin> eventKeyOf pf ` set (take i evs)"
    proof
      assume "key \<in> eventKeyOf pf ` set (take i evs)"
      then obtain j where "j < i" "eventKeyOf pf (evs ! j) = key"
        by (auto simp: in_set_conv_nth)
      with that show False by blast
    qed
    then show ?thesis
      using processEvents_getEventState [of key pf "take i evs" cs prefix tz w "[]" "[]"] before
      by simp
  qed
  have cases: "(getEventState W key prefix = None \<longrightarrow> sq = 0) \<and>
       (\<forall>st. getEventState W key prefix = Some st \<and> contentHash st = h \<longrightarrow> sq = sequence st) \<and>
       (\<forall>st. getEventState W key prefix = Some st \<and> contentHash st \<noteq> h
              \<longrightarrow> sq = sequence st + 1)"
    by (auto simp: sq_def W nextSequence_def)
  show ?thesis
    unfolding Let_def evs_def [symmetric] e_def [symmetric] key_def [symmetric] h_def [symmetric]
      W W'' nth seq
    using ln [unfolded seq] dv written final frame cases
    by (simp add: ln)
qed

theorem normalizeCalendar_event_sequence_witness:
  "eventSequence (normalizedEvents (snd (normalizeCalendar exampleConstants examplePlatform
      (exampleWorld Map.empty) (exampleCalendar [exampleEvent]) (Some ''ab12'') None)) ! 0) = 0 \<and>
   lines (normalizedEvents (snd (normalizeCalendar exampleConstants examplePlatform
      (exampleWorld Map.empty) (exampleCalendar [exampleEvent]) (Some ''ab12'') None)) ! 0) ! 2
     = ''SEQUENCE:0'' \<and>
   eventSequence (normalizedEvents (snd (normalizeCalendar exampleConstants examplePlatform
      (exampleWorld
         [''ab12:event:587c4f7c4d7c30303030393054313036'' \<mapsto>
            EventStateDoc \<lparr>sequence = 41,
               contentHash = computeContentHash examplePlatform exampleEvent, lastSeen = 7\<rparr>])
      (exampleCalendar [exampleEvent]) (Some ''ab12'') None)) ! 0) = 41 \<and>
   lines (normalizedEvents (snd (normalizeCalendar exampleConstants examplePlatform
      (exampleWorld
         [''ab12:event:587c4f7c4d7c30303030393054313036'' \<mapsto>
            EventStateDoc \<lparr>sequence = 41,
               contentHash = computeContentHash examplePlatform exampleEvent, lastSeen = 7\<rparr>])
      (exampleCalendar [exampleEvent]) (Some ''ab12'') None)) ! 0) ! 2
     = ''SEQUENCE:41'' \<and>
   eventSequence (normalizedEvents (snd (normalizeCalendar exampleConstants examplePlatform
      (exampleWorld
         [''ab12:event:587c4f7c4d7c30303030393054313036'' \<mapsto>
            EventStateDoc \<lparr>sequence = 9, contentHash = ''CANCELLED'', lastSeen = 7\<rparr>])
      (exampleCalendar [exampleEvent]) (Some ''ab12'') None)) ! 0) = 10 \<and>
   lines (normalizedEvents (snd (normalizeCalendar exampleConstants examplePlatform
      (exampleWorld
         [''ab12:event:587c4f7c4d7c30303030393054313036'' \<mapsto>
            EventStateDoc \<lparr>sequence = 9, contentHash = ''CANCELLED'', lastSeen = 7\<rparr>])
      (exampleCalendar [exampleEvent]) (Some ''ab12'') None)) ! 0) ! 2
     = ''SEQUENCE:10'' \<and>
   decimalValue ''10'' = 10 \<and>
   entries (worldBefore exampleConstants examplePlatform (Some ''ab12'') None
              (exampleWorld Map.empty) [exampleEvent] (Suc 0))
     ''ab12:event:587c4f7c4d7c30303030393054313036'' =
     Some (EventStateDoc \<lparr>sequence = 0,
             contentHash = ''583a4449550a4d3a5952414d4d55530a4f3a52455a494e4147524f0a544e4556'',
             lastSeen = 1000\<rparr>) \<and>
   entries (fst (normalizeCalendar exampleConstants examplePlatform
      (exampleWorld Map.empty) (exampleCalendar [exampleEvent]) (Some ''ab12'') None))
     ''ab12:event:587c4f7c4d7c30303030393054313036'' =
     Some (EventStateDoc \<lparr>sequence = 0,
             contentHash = ''583a4449550a4d3a5952414d4d55530a4f3a52455a494e4147524f0a544e4556'',
             lastSeen = 1000\<rparr>) \<and>
   entries (fst (normalizeCalendar exampleConstants examplePlatform
      (exampleWorld
         [''ab12:event:587c4f7c4d7c30303030393054313036'' \<mapsto>
            EventStateDoc \<lparr>sequence = 9, contentHash = ''CANCELLED'', lastSeen = 7\<rparr>])
      (exampleCalendar [exampleEvent]) (Some ''ab12'') None))
     ''ab12:event:587c4f7c4d7c30303030393054313036'' =
     Some (EventStateDoc \<lparr>sequence = 10,
             contentHash = ''583a4449550a4d3a5952414d4d55530a4f3a52455a494e4147524f0a544e4556'',
             lastSeen = 1000\<rparr>) \<and>
   getEventState (worldBefore exampleConstants examplePlatform (Some ''ab12'') None
              (exampleWorld Map.empty) [exampleEvent] 0)
     (eventKeyOf examplePlatform exampleEvent) (Some ''ab12'') =
   getEventState (exampleWorld Map.empty)
     (eventKeyOf examplePlatform exampleEvent) (Some ''ab12'')"
proof -
  let ?cal = "exampleCalendar [exampleEvent]"
  let ?k = "''ab12:event:587c4f7c4d7c30303030393054313036''"
  let ?h = "''583a4449550a4d3a5952414d4d55530a4f3a52455a494e4147524f0a544e4556''"
  let ?wA = "exampleWorld Map.empty"
  let ?wB = "exampleWorld
         [?k \<mapsto>
            EventStateDoc \<lparr>sequence = 41,
               contentHash = computeContentHash examplePlatform exampleEvent, lastSeen = 7\<rparr>]"
  let ?wC = "exampleWorld
         [?k \<mapsto>
            EventStateDoc \<lparr>sequence = 9, contentHash = ''CANCELLED'', lastSeen = 7\<rparr>]"
  have i: "0 < length (events ?cal)"
    by (simp add: exampleCalendar_def)
  have evs: "events ?cal = [exampleEvent]"
    by (simp add: exampleCalendar_def)
  have key: "eventStateKey (Some ''ab12'') (eventKeyOf examplePlatform exampleEvent) = ?k"
    by code_simp
  have hash: "computeContentHash examplePlatform exampleEvent = ?h"
    by code_simp
  have gA: "getEventState (worldBefore exampleConstants examplePlatform (Some ''ab12'') None
              ?wA [exampleEvent] 0) (eventKeyOf examplePlatform exampleEvent) (Some ''ab12'') = None"
    by code_simp
  have gB: "getEventState (worldBefore exampleConstants examplePlatform (Some ''ab12'') None
              ?wB [exampleEvent] 0) (eventKeyOf examplePlatform exampleEvent) (Some ''ab12'')
            = Some \<lparr>sequence = 41,
                 contentHash = computeContentHash examplePlatform exampleEvent, lastSeen = 7\<rparr>"
    by code_simp
  have gC: "getEventState (worldBefore exampleConstants examplePlatform (Some ''ab12'') None
              ?wC [exampleEvent] 0) (eventKeyOf examplePlatform exampleEvent) (Some ''ab12'')
            = Some \<lparr>sequence = 9, contentHash = ''CANCELLED'', lastSeen = 7\<rparr>"
    by code_simp
  have hC: "''CANCELLED'' \<noteq> computeContentHash examplePlatform exampleEvent"
    by code_simp
  have pA: "\<not> putFails ?wA ?k" and pC: "\<not> putFails ?wC ?k"
    by (simp_all add: exampleWorld_def)
  have cA: "clock ?wA (ticks ?wA + 0) = 1000" and cC: "clock ?wC (ticks ?wC + 0) = 1000"
    by (simp_all add: exampleWorld_def)
  have s: "showNat 0 = ''0''" "showNat 41 = ''41''" "showNat 10 = ''10''"
    by code_simp+
  note A = normalizeCalendar_event_sequence
             [where parsed = "?cal" and i = 0 and pf = examplePlatform and cs = exampleConstants
                and prefix = "Some ''ab12''" and tz = None and w = "?wA",
              OF i, unfolded Let_def evs nth_Cons_0 key]
  note B = normalizeCalendar_event_sequence
             [where parsed = "?cal" and i = 0 and pf = examplePlatform and cs = exampleConstants
                and prefix = "Some ''ab12''" and tz = None and w = "?wB",
              OF i, unfolded Let_def evs nth_Cons_0 key]
  note C = normalizeCalendar_event_sequence
             [where parsed = "?cal" and i = 0 and pf = examplePlatform and cs = exampleConstants
                and prefix = "Some ''ab12''" and tz = None and w = "?wC",
              OF i, unfolded Let_def evs nth_Cons_0 key]
  have a: "eventSequence (normalizedEvents (snd (normalizeCalendar exampleConstants
             examplePlatform ?wA ?cal (Some ''ab12'') None)) ! 0) = 0"
    using A gA by blast
  have b: "eventSequence (normalizedEvents (snd (normalizeCalendar exampleConstants
             examplePlatform ?wB ?cal (Some ''ab12'') None)) ! 0) = 41"
    using B gB by force
  have c: "eventSequence (normalizedEvents (snd (normalizeCalendar exampleConstants
             examplePlatform ?wC ?cal (Some ''ab12'') None)) ! 0) = 10"
    using C gC hC by force
  have la: "lines (normalizedEvents (snd (normalizeCalendar exampleConstants
             examplePlatform ?wA ?cal (Some ''ab12'') None)) ! 0) ! 2 = ''SEQUENCE:0''"
    using A a s by simp
  have lb: "lines (normalizedEvents (snd (normalizeCalendar exampleConstants
             examplePlatform ?wB ?cal (Some ''ab12'') None)) ! 0) ! 2 = ''SEQUENCE:41''"
    using B b s by simp
  have lc: "lines (normalizedEvents (snd (normalizeCalendar exampleConstants
             examplePlatform ?wC ?cal (Some ''ab12'') None)) ! 0) ! 2 = ''SEQUENCE:10''"
    using C c s by simp
  have "decimalValue (drop 9 (lines (normalizedEvents (snd (normalizeCalendar exampleConstants
             examplePlatform ?wC ?cal (Some ''ab12'') None)) ! 0) ! 2)) =
        eventSequence (normalizedEvents (snd (normalizeCalendar exampleConstants
             examplePlatform ?wC ?cal (Some ''ab12'') None)) ! 0)"
    using C by blast
  then have dv: "decimalValue ''10'' = 10"
    unfolding lc c by simp
  have d: "entries (worldBefore exampleConstants examplePlatform (Some ''ab12'') None
              ?wA [exampleEvent] (Suc 0)) ?k =
     Some (EventStateDoc \<lparr>sequence = 0, contentHash = ?h, lastSeen = 1000\<rparr>)"
    using A pA a cA hash by simp
  have z: "\<forall>j::nat. j = 0 \<or> 0 < j"
    by auto
  have f: "entries (fst (normalizeCalendar exampleConstants examplePlatform ?wA ?cal
              (Some ''ab12'') None)) ?k =
     Some (EventStateDoc \<lparr>sequence = 0, contentHash = ?h, lastSeen = 1000\<rparr>)"
    using A pA a cA hash z by simp
  have g: "entries (fst (normalizeCalendar exampleConstants examplePlatform ?wC ?cal
              (Some ''ab12'') None)) ?k =
     Some (EventStateDoc \<lparr>sequence = 10, contentHash = ?h, lastSeen = 1000\<rparr>)"
    using C pC c cC hash z by simp
  have e: "getEventState (worldBefore exampleConstants examplePlatform (Some ''ab12'') None
              ?wA [exampleEvent] 0) (eventKeyOf examplePlatform exampleEvent) (Some ''ab12'') =
           getEventState ?wA (eventKeyOf examplePlatform exampleEvent) (Some ''ab12'')"
    using A by simp
  show ?thesis
    using a la b lb c lc dv d f g e by blast
qed


subsection \<open>The content hash and the volatile properties\<close>

lemma find_filter: "(\<And>x. P x \<Longrightarrow> Q x) \<Longrightarrow> find P (filter Q xs) = find P xs"
  by (induction xs) auto

lemma getProperty_nonvolatile:
  assumes "n \<notin> {''DTSTAMP'', ''LAST-MODIFIED'', ''SEQUENCE''}"
  shows "getProperty e n =
     find (\<lambda>p. p_name p = n)
       (filter (\<lambda>p. p_name p \<notin> {''DTSTAMP'', ''LAST-MODIFIED'', ''SEQUENCE''}) (properties e))"
  unfolding getProperty_def using assms by (subst find_filter) auto

text \<open>
  C4. Two events with the same original UID whose properties other than DTSTAMP,
  LAST-MODIFIED and SEQUENCE are the same (so that they differ at most in the values or
  the presence of these three) have the same content hash, a string of hexadecimal
  digits, 64 of them for a digest of 32 bytes. They have the same event key, and from
  the same state of the loop \<open>processEvent\<close> leaves the same world and the same
  sequence numbers.
\<close>

theorem computeContentHash_ignores_volatile:
  "uid e1 = uid e2 \<Longrightarrow>
   filter (\<lambda>p. p_name p \<notin> {''DTSTAMP'', ''LAST-MODIFIED'', ''SEQUENCE''}) (properties e1) =
   filter (\<lambda>p. p_name p \<notin> {''DTSTAMP'', ''LAST-MODIFIED'', ''SEQUENCE''}) (properties e2) \<Longrightarrow>
   computeContentHash pf e1 = computeContentHash pf e2 \<and>
   set (computeContentHash pf e1) \<subseteq> set ''0123456789abcdef'' \<and>
   ((\<forall>x. length (sha256 pf x) = 32) \<longrightarrow> length (computeContentHash pf e1) = 64) \<and>
   eventKeyOf pf e1 = eventKeyOf pf e2 \<and>
   fst (processEvent cs pf prefix tz (w, ns, ks) e1) =
     fst (processEvent cs pf prefix tz (w, ns, ks) e2) \<and>
   map eventSequence (fst (snd (processEvent cs pf prefix tz (w, ns, ks) e1))) =
     map eventSequence (fst (snd (processEvent cs pf prefix tz (w, ns, ks) e2)))"
proof -
  assume u: "uid e1 = uid e2"
    and f: "filter (\<lambda>p. p_name p \<notin> {''DTSTAMP'', ''LAST-MODIFIED'', ''SEQUENCE''})
              (properties e1) =
            filter (\<lambda>p. p_name p \<notin> {''DTSTAMP'', ''LAST-MODIFIED'', ''SEQUENCE''})
              (properties e2)"
  have h: "computeContentHash pf e1 = computeContentHash pf e2"
    using f by (simp add: computeContentHash_def Let_def)
  have chars: "set (computeContentHash pf e1) \<subseteq> set ''0123456789abcdef''"
    unfolding computeContentHash_def Let_def by (rule hex_chars)
  have len: "length (computeContentHash pf e1) = 64" if "\<forall>x. length (sha256 pf x) = 32"
    using that by (simp add: computeContentHash_def Let_def hex_length)
  have g: "getProperty e1 n = getProperty e2 n"
    if "n \<notin> {''DTSTAMP'', ''LAST-MODIFIED'', ''SEQUENCE''}" for n
    using getProperty_nonvolatile [OF that] f by simp
  have s: "computeStableUid pf e1 = computeStableUid pf e2"
    using g [of "''DTSTART''"] g [of "''SUMMARY''"] g [of "''ORGANIZER''"] u
    by (simp add: computeStableUid_def Let_def)
  have k: "eventKeyOf pf e1 = eventKeyOf pf e2"
    using g [of "''RECURRENCE-ID''"] s by (simp add: eventKeyOf_def split: option.splits)
  show ?thesis
    using h chars len k by (simp add: processEvent_eq)
qed


theorem computeContentHash_ignores_volatile_witness:
  "properties exampleEvent \<noteq> properties exampleEventTouched \<and>
   computeContentHash examplePlatform exampleEvent =
     computeContentHash examplePlatform exampleEventTouched \<and>
   length (computeContentHash examplePlatform exampleEvent) = 64 \<and>
   map eventSequence
     (fst (snd (processEvent exampleConstants examplePlatform (Some ''ab12'') None
                  (exampleWorld Map.empty, [], []) exampleEvent))) =
   map eventSequence
     (fst (snd (processEvent exampleConstants examplePlatform (Some ''ab12'') None
                  (exampleWorld Map.empty, [], []) exampleEventTouched)))"
proof -
  have u: "uid exampleEvent = uid exampleEventTouched"
    by (simp add: exampleEvent_def exampleEventTouched_def)
  have f: "filter (\<lambda>p. p_name p \<notin> {''DTSTAMP'', ''LAST-MODIFIED'', ''SEQUENCE''})
             (properties exampleEvent) =
           filter (\<lambda>p. p_name p \<notin> {''DTSTAMP'', ''LAST-MODIFIED'', ''SEQUENCE''})
             (properties exampleEventTouched)"
    by (simp add: exampleEvent_def exampleEventTouched_def)
  have d: "\<forall>x. length (sha256 examplePlatform x) = 32"
    by (simp add: examplePlatform_digest_length)
  have n: "properties exampleEvent \<noteq> properties exampleEventTouched"
    by (simp add: exampleEvent_def exampleEventTouched_def)
  show ?thesis
    using computeContentHash_ignores_volatile
            [OF u f, of examplePlatform exampleConstants "Some ''ab12''" None
               "exampleWorld Map.empty" "[]" "[]"] d n
    by blast
qed


subsection \<open>The reconciler: cancellations\<close>

lemma uidPart:
  "(if includesStr k ''#'' then splitOn CHR ''#'' k ! 0 else k)
     = takeWhile (\<lambda>x. x \<noteq> CHR ''#'') k"
proof (cases "CHR ''#'' \<in> set k")
  case True
  have "splitOn CHR ''#'' k ! 0 = hd (splitOn CHR ''#'' k)"
    using splitOn_nonempty [of "CHR ''#''" k] by (simp add: hd_conv_nth)
  with True show ?thesis
    by (simp add: includesStr_char splitOn_hd)
next
  case False
  then have "takeWhile (\<lambda>x. x \<noteq> CHR ''#'') k = k"
    by (auto simp: takeWhile_eq_all_conv)
  moreover have "\<not> includesStr k ''#''"
    using False by (simp add: includesStr_char)
  ultimately show ?thesis
    by (simp only: if_False)
qed

text \<open>What \<open>createCancelledEventFromState\<close> does for a key with a readable record.\<close>

lemma createCancelled_Some:
  assumes "getEventState w k prefix = Some st"
  shows "\<exists>W' c. createCancelledEventFromState pf w k prefix = (W', Some c) \<and>
           isCancellationOf k (sequence st) c \<and>
           getFails W' = getFails w \<and> putFails W' = putFails w \<and>
           (\<forall>key. key \<noteq> eventStateKey prefix k \<longrightarrow> entries W' key = entries w key) \<and>
           (\<not> putFails w (eventStateKey prefix k) \<longrightarrow>
              (\<exists>t. entries W' (eventStateKey prefix k) =
                 Some (EventStateDoc \<lparr>sequence = sequence st + 1,
                                      contentHash = ''CANCELLED'', lastSeen = t\<rparr>)))"
proof -
  define uid' where "uid' = takeWhile (\<lambda>x. x \<noteq> CHR ''#'') k"
  define rid where "rid = (if includesStr k ''#'' then Some (splitOn CHR ''#'' k ! 1) else None)"
  define W1 where "W1 = saveEventState (w\<lparr>ticks := Suc (ticks w)\<rparr>) k
      \<lparr>sequence = sequence st + 1, contentHash = ''CANCELLED'', lastSeen = clock w (ticks w)\<rparr>
      prefix"
  define c where "c =
      \<lparr>stableUid = uid', eventSequence = sequence st + 1, isException = truthy rid,
       recurrenceId = rid,
       lines = createCancelledEventLines pf (clock W1 (ticks W1)) uid' (sequence st + 1) rid\<rparr>"
  have pair: "(if includesStr k ''#''
               then (splitOn CHR ''#'' k ! 0, Some (splitOn CHR ''#'' k ! 1))
               else (k, None)) = (uid', rid)"
    using uidPart [of k] by (auto simp: uid'_def rid_def split: if_splits)
  have eq: "createCancelledEventFromState pf w k prefix = (W1\<lparr>ticks := Suc (ticks W1)\<rparr>, Some c)"
    unfolding createCancelledEventFromState_def assms pair
    by (simp add: dateNow_def Let_def W1_def c_def)
  have canc: "isCancellationOf k (sequence st) c"
    by (simp add: isCancellationOf_def c_def createCancelledEventLines_def Let_def uid'_def)
  show ?thesis
    using eq canc
    by (auto simp: W1_def saveEventState_frame saveEventState_entries)
qed

lemma createCancelled_None:
  "getEventState w k prefix = None \<Longrightarrow> createCancelledEventFromState pf w k prefix = (w, None)"
  by (simp add: createCancelledEventFromState_def)

lemma cancelMissing_Cons:
  "cancelMissing pf prefix ks st (k # keys) =
     cancelMissing pf prefix ks (cancelStep pf prefix ks st k) keys"
  by (simp add: cancelMissing_def)

lemma cancelMissing_Nil: "cancelMissing pf prefix ks st [] = st"
  by (simp add: cancelMissing_def)

text \<open>
  The second loop over distinct keys: one cancellation, in order, for each key that is
  not a current key and has a readable record; only the records of these keys change.
\<close>

lemma cancelMissing_spec:
  "distinct keys \<Longrightarrow>
   \<exists>W' C. cancelMissing pf prefix ks (W, ns) keys = (W', ns @ C) \<and>
     list_all2 (\<lambda>k c. isCancellationOf k (sequence (the (getEventState W k prefix))) c)
       (filter (\<lambda>k. k \<notin> set ks \<and> getEventState W k prefix \<noteq> None) keys) C \<and>
     getFails W' = getFails W \<and> putFails W' = putFails W \<and>
     (\<forall>key. key \<notin> (\<lambda>k. eventStateKey prefix k) ` set keys \<longrightarrow>
        entries W' key = entries W key) \<and>
     (\<forall>k \<in> set (filter (\<lambda>k. k \<notin> set ks \<and> getEventState W k prefix \<noteq> None) keys).
        \<not> putFails W (eventStateKey prefix k) \<longrightarrow>
        (\<exists>t. entries W' (eventStateKey prefix k) =
           Some (EventStateDoc \<lparr>sequence = sequence (the (getEventState W k prefix)) + 1,
                                contentHash = ''CANCELLED'', lastSeen = t\<rparr>)))"
proof (induction keys arbitrary: W ns)
  case Nil
  show ?case by (simp add: cancelMissing_Nil)
next
  case (Cons k keys)
  have dk: "k \<notin> set keys" and d: "distinct keys"
    using Cons.prems by simp_all
  let ?miss = "\<lambda>V. filter (\<lambda>k. k \<notin> set ks \<and> getEventState V k prefix \<noteq> None)"
  show ?case
  proof (cases "k \<notin> set ks \<and> getEventState W k prefix \<noteq> None")
    case False
    then have step: "cancelStep pf prefix ks (W, ns) k = (W, ns)"
      by (auto simp: cancelStep_def createCancelled_None)
    obtain W' C where ih:
      "cancelMissing pf prefix ks (W, ns) keys = (W', ns @ C)"
      "list_all2 (\<lambda>k c. isCancellationOf k (sequence (the (getEventState W k prefix))) c)
         (?miss W keys) C"
      "getFails W' = getFails W" "putFails W' = putFails W"
      "\<forall>key. key \<notin> (\<lambda>k. eventStateKey prefix k) ` set keys \<longrightarrow>
         entries W' key = entries W key"
      "\<forall>k \<in> set (?miss W keys). \<not> putFails W (eventStateKey prefix k) \<longrightarrow>
        (\<exists>t. entries W' (eventStateKey prefix k) =
           Some (EventStateDoc \<lparr>sequence = sequence (the (getEventState W k prefix)) + 1,
                                contentHash = ''CANCELLED'', lastSeen = t\<rparr>))"
      using Cons.IH [OF d, of W ns] by blast
    have m: "?miss W (k # keys) = ?miss W keys"
      using False by auto
    show ?thesis
      unfolding cancelMissing_Cons step m
      using ih by auto
  next
    case True
    then obtain st where st: "getEventState W k prefix = Some st" and cur: "k \<notin> set ks"
      by auto
    obtain W1 c where c:
      "createCancelledEventFromState pf W k prefix = (W1, Some c)"
      "isCancellationOf k (sequence st) c"
      "getFails W1 = getFails W" "putFails W1 = putFails W"
      "\<forall>key. key \<noteq> eventStateKey prefix k \<longrightarrow> entries W1 key = entries W key"
      "\<not> putFails W (eventStateKey prefix k) \<longrightarrow>
         (\<exists>t. entries W1 (eventStateKey prefix k) =
            Some (EventStateDoc \<lparr>sequence = sequence st + 1,
                                 contentHash = ''CANCELLED'', lastSeen = t\<rparr>))"
      using createCancelled_Some [OF st, of pf] by blast
    have step: "cancelStep pf prefix ks (W, ns) k = (W1, ns @ [c])"
      using cur c(1) by (simp add: cancelStep_def)
    have same: "getEventState W1 k' prefix = getEventState W k' prefix" if "k' \<in> set keys" for k'
    proof (rule getEventState_cong)
      show "getFails W1 = getFails W" by (rule c(3))
      have "k' \<noteq> k" using that dk by auto
      then have "eventStateKey prefix k' \<noteq> eventStateKey prefix k"
        by (simp only: kvKey_event_inj) simp
      then show "entries W1 (eventStateKey prefix k') = entries W (eventStateKey prefix k')"
        using c(5) by blast
    qed
    have m1: "?miss W1 keys = ?miss W keys"
      using same by (auto intro: filter_cong)
    obtain W' C where ih:
      "cancelMissing pf prefix ks (W1, ns @ [c]) keys = (W', (ns @ [c]) @ C)"
      "list_all2 (\<lambda>k c. isCancellationOf k (sequence (the (getEventState W1 k prefix))) c)
         (?miss W1 keys) C"
      "getFails W' = getFails W1" "putFails W' = putFails W1"
      "\<forall>key. key \<notin> (\<lambda>k. eventStateKey prefix k) ` set keys \<longrightarrow>
         entries W' key = entries W1 key"
      "\<forall>k \<in> set (?miss W1 keys). \<not> putFails W1 (eventStateKey prefix k) \<longrightarrow>
        (\<exists>t. entries W' (eventStateKey prefix k) =
           Some (EventStateDoc \<lparr>sequence = sequence (the (getEventState W1 k prefix)) + 1,
                                contentHash = ''CANCELLED'', lastSeen = t\<rparr>))"
      using Cons.IH [OF d, of W1 "ns @ [c]"] by blast
    have m: "?miss W (k # keys) = k # ?miss W keys"
      using True by simp
    have all2: "list_all2 (\<lambda>k c. isCancellationOf k (sequence (the (getEventState W k prefix))) c)
         (?miss W keys) C"
      using ih(2) unfolding m1
      by (rule list.rel_mono_strong) (simp add: same)
    have knot: "eventStateKey prefix k \<notin> (\<lambda>k. eventStateKey prefix k) ` set keys"
      using dk by (auto simp only: kvKey_event_inj)
    have frame: "\<forall>key. key \<notin> (\<lambda>k. eventStateKey prefix k) ` set (k # keys) \<longrightarrow>
         entries W' key = entries W key"
      using ih(5) c(5) by auto
    have wk: "\<not> putFails W (eventStateKey prefix k) \<longrightarrow>
        (\<exists>t. entries W' (eventStateKey prefix k) =
           Some (EventStateDoc \<lparr>sequence = sequence (the (getEventState W k prefix)) + 1,
                                contentHash = ''CANCELLED'', lastSeen = t\<rparr>))"
      using c(6) ih(5) knot st by auto
    have wrest: "\<forall>k \<in> set (?miss W keys). \<not> putFails W (eventStateKey prefix k) \<longrightarrow>
        (\<exists>t. entries W' (eventStateKey prefix k) =
           Some (EventStateDoc \<lparr>sequence = sequence (the (getEventState W k prefix)) + 1,
                                contentHash = ''CANCELLED'', lastSeen = t\<rparr>))"
      using ih(6) unfolding m1 c(4) by (auto simp: same)
    show ?thesis
      unfolding cancelMissing_Cons step m
      using ih(1) ih(3) ih(4) c(2) c(3) c(4) st all2 frame wk wrest
      by auto
  qed
qed


text \<open>
  C2 (amended). Let the previous snapshot be readable and list each key once. Then the
  normalized events behind those of the parsed events are, in the order of the
  snapshot, exactly one cancellation for each key of the snapshot that is not the key of
  a parsed event and has a readable state record: a VEVENT with \<open>STATUS:CANCELLED\<close>,
  the UID of the key at \<open>@calproxy\<close> and the stored sequence plus one. Unless the store
  refuses the write, the record of such a key ends with that sequence and the content
  hash \<open>CANCELLED\<close>. A key without a readable record gets no cancellation.
\<close>

theorem normalizeCalendar_cancellations:
  "getPreviousSnapshot w prefix = Some snap \<Longrightarrow> distinct (eventKeys snap) \<Longrightarrow>
   (let missing =
          filter (\<lambda>k. k \<notin> eventKeyOf pf ` set (events parsed) \<and>
                      getEventState w k prefix \<noteq> None) (eventKeys snap);
        result = normalizeCalendar cs pf w parsed prefix tz
    in list_all2 (\<lambda>k c. isCancellationOf k (sequence (the (getEventState w k prefix))) c)
         missing (drop (length (events parsed)) (normalizedEvents (snd result))) \<and>
       (\<forall>k \<in> set missing.
          \<not> putFails w (eventStateKey prefix k) \<longrightarrow>
          (\<exists>t. entries (fst result) (eventStateKey prefix k) =
             Some (EventStateDoc \<lparr>sequence = sequence (the (getEventState w k prefix)) + 1,
                                  contentHash = ''CANCELLED'', lastSeen = t\<rparr>))))"
proof -
  assume snap: "getPreviousSnapshot w prefix = Some snap" and d: "distinct (eventKeys snap)"
  define evs where "evs = events parsed"
  define ks where "ks = map (eventKeyOf pf) evs"
  obtain w1 N where
    loop: "processEvents cs pf prefix tz (w, [], []) evs = (w1, N, ks)"
    and inv: "length N = length evs" "getFails w1 = getFails w" "putFails w1 = putFails w"
    using processEvents_shape [of cs pf prefix tz w "[]" "[]" evs] by (auto simp: ks_def)
  have w1: "w1 = fst (processEvents cs pf prefix tz (w, [], []) evs)"
    by (simp add: loop)
  have snap1: "getPreviousSnapshot w1 prefix = Some snap"
    unfolding w1 processEvents_getPreviousSnapshot by (rule snap)
  have same: "getEventState w1 k prefix = getEventState w k prefix" if "k \<notin> set ks" for k
    unfolding w1 using that by (intro processEvents_getEventState) (simp add: ks_def)
  let ?miss = "\<lambda>V. filter (\<lambda>k. k \<notin> set ks \<and> getEventState V k prefix \<noteq> None) (eventKeys snap)"
  have m: "?miss w1 = ?miss w"
    using same by (auto intro: filter_cong)
  obtain W' C where c:
    "cancelMissing pf prefix ks (w1, N) (eventKeys snap) = (W', N @ C)"
    "list_all2 (\<lambda>k c. isCancellationOf k (sequence (the (getEventState w1 k prefix))) c)
       (?miss w1) C"
    "\<forall>k \<in> set (?miss w1). \<not> putFails w1 (eventStateKey prefix k) \<longrightarrow>
        (\<exists>t. entries W' (eventStateKey prefix k) =
           Some (EventStateDoc \<lparr>sequence = sequence (the (getEventState w1 k prefix)) + 1,
                                contentHash = ''CANCELLED'', lastSeen = t\<rparr>))"
    using cancelMissing_spec [OF d, of pf prefix ks w1 N] by blast
  have res: "normalizeCalendar cs pf w parsed prefix tz =
      (saveSnapshotKeys W' ks prefix,
       \<lparr>headerLines = headerLines parsed, timezoneBlocks = timezoneBlocks parsed,
        events = events parsed, footerLines = footerLines parsed,
        normalizedEvents = N @ C\<rparr>)"
    using loop snap1 c(1) by (simp add: normalizeCalendar_def Let_def evs_def)
  have all2: "list_all2 (\<lambda>k c. isCancellationOf k (sequence (the (getEventState w k prefix))) c)
       (?miss w) C"
    using c(2) unfolding m
    by (rule list.rel_mono_strong) (simp add: same)
  have written: "\<forall>k \<in> set (?miss w). \<not> putFails w (eventStateKey prefix k) \<longrightarrow>
        (\<exists>t. entries (saveSnapshotKeys W' ks prefix) (eventStateKey prefix k) =
           Some (EventStateDoc \<lparr>sequence = sequence (the (getEventState w k prefix)) + 1,
                                contentHash = ''CANCELLED'', lastSeen = t\<rparr>))"
    using c(3) unfolding m inv(3)
    by (auto simp: same saveSnapshotKeys_entries kvKey_event_snapshot)
  have ks': "eventKeyOf pf ` set (events parsed) = set ks"
    by (simp add: ks_def evs_def)
  show ?thesis
    unfolding Let_def ks' res
    using all2 written inv(1) by (simp add: evs_def)
qed


theorem normalizeCalendar_cancellations_witness:
  "getPreviousSnapshot
     (exampleWorld (map_of
        [(''ab12:snapshot:keys'',
          SnapshotDoc \<lparr>eventKeys = [''587c4f7c4d7c30303030393054313036''], generatedAt = 5\<rparr>),
         (''ab12:event:587c4f7c4d7c30303030393054313036'',
          EventStateDoc \<lparr>sequence = 4, contentHash = ''old'', lastSeen = 7\<rparr>)]))
     (Some ''ab12'')
     = Some \<lparr>eventKeys = [''587c4f7c4d7c30303030393054313036''], generatedAt = 5\<rparr> \<and>
   (\<exists>c. normalizedEvents (snd (normalizeCalendar exampleConstants examplePlatform
        (exampleWorld (map_of
           [(''ab12:snapshot:keys'',
             SnapshotDoc \<lparr>eventKeys = [''587c4f7c4d7c30303030393054313036''], generatedAt = 5\<rparr>),
            (''ab12:event:587c4f7c4d7c30303030393054313036'',
             EventStateDoc \<lparr>sequence = 4, contentHash = ''old'', lastSeen = 7\<rparr>)]))
        (exampleCalendar []) (Some ''ab12'') None)) = [c] \<and>
      eventSequence c = 5 \<and>
      lines c ! 1 = ''UID:587c4f7c4d7c30303030393054313036@calproxy'' \<and>
      lines c ! 2 = ''SEQUENCE:5'' \<and>
      lines c ! 4 = ''STATUS:CANCELLED'') \<and>
   (\<exists>t. entries (fst (normalizeCalendar exampleConstants examplePlatform
        (exampleWorld (map_of
           [(''ab12:snapshot:keys'',
             SnapshotDoc \<lparr>eventKeys = [''587c4f7c4d7c30303030393054313036''], generatedAt = 5\<rparr>),
            (''ab12:event:587c4f7c4d7c30303030393054313036'',
             EventStateDoc \<lparr>sequence = 4, contentHash = ''old'', lastSeen = 7\<rparr>)]))
        (exampleCalendar []) (Some ''ab12'') None))
        ''ab12:event:587c4f7c4d7c30303030393054313036'' =
      Some (EventStateDoc \<lparr>sequence = 5, contentHash = ''CANCELLED'', lastSeen = t\<rparr>))"
proof -
  let ?w = "exampleWorld (map_of
        [(''ab12:snapshot:keys'',
          SnapshotDoc \<lparr>eventKeys = [''587c4f7c4d7c30303030393054313036''], generatedAt = 5\<rparr>),
         (''ab12:event:587c4f7c4d7c30303030393054313036'',
          EventStateDoc \<lparr>sequence = 4, contentHash = ''old'', lastSeen = 7\<rparr>)])"
  let ?snap = "\<lparr>eventKeys = [''587c4f7c4d7c30303030393054313036''], generatedAt = 5\<rparr>"
  let ?res = "normalizeCalendar exampleConstants examplePlatform ?w (exampleCalendar [])
                (Some ''ab12'') None"
  have s: "getPreviousSnapshot ?w (Some ''ab12'') = Some ?snap"
    by code_simp
  have d: "distinct (eventKeys ?snap)"
    by simp
  have g: "getEventState ?w ''587c4f7c4d7c30303030393054313036'' (Some ''ab12'')
             = Some \<lparr>sequence = 4, contentHash = ''old'', lastSeen = 7\<rparr>"
    by code_simp
  have m: "filter (\<lambda>k. k \<notin> eventKeyOf examplePlatform ` set (events (exampleCalendar [])) \<and>
                      getEventState ?w k (Some ''ab12'') \<noteq> None) (eventKeys ?snap)
             = [''587c4f7c4d7c30303030393054313036'']"
    using g by (simp add: exampleCalendar_def)
  have n: "drop (length (events (exampleCalendar []))) (normalizedEvents (snd ?res))
             = normalizedEvents (snd ?res)"
    by (simp add: exampleCalendar_def)
  have sh: "showNat (4 + 1) = ''5''"
    by code_simp
  have "list_all2
          (\<lambda>k c. isCancellationOf k (sequence (the (getEventState ?w k (Some ''ab12'')))) c)
          [''587c4f7c4d7c30303030393054313036''] (normalizedEvents (snd ?res))"
    using normalizeCalendar_cancellations
            [OF s d, where pf = examplePlatform and cs = exampleConstants and tz = None
               and parsed = "exampleCalendar []", unfolded Let_def m n]
    by blast
  then obtain c where c: "normalizedEvents (snd ?res) = [c]"
    "isCancellationOf ''587c4f7c4d7c30303030393054313036''
       (sequence (the (getEventState ?w ''587c4f7c4d7c30303030393054313036'' (Some ''ab12'')))) c"
    by (auto simp: list_all2_Cons1)
  have "eventSequence c = 5 \<and>
      lines c ! 1 = ''UID:587c4f7c4d7c30303030393054313036@calproxy'' \<and>
      lines c ! 2 = ''SEQUENCE:5'' \<and>
      lines c ! 4 = ''STATUS:CANCELLED''"
    using c(2) sh unfolding g isCancellationOf_def by simp
  then have first: "\<exists>c. normalizedEvents (snd ?res) = [c] \<and> eventSequence c = 5 \<and>
      lines c ! 1 = ''UID:587c4f7c4d7c30303030393054313036@calproxy'' \<and>
      lines c ! 2 = ''SEQUENCE:5'' \<and>
      lines c ! 4 = ''STATUS:CANCELLED''"
    using c(1) by blast
  have k: "eventStateKey (Some ''ab12'') ''587c4f7c4d7c30303030393054313036''
             = ''ab12:event:587c4f7c4d7c30303030393054313036''"
    by code_simp
  have pf: "\<not> putFails ?w ''ab12:event:587c4f7c4d7c30303030393054313036''"
    by (simp add: exampleWorld_def)
  have "\<forall>k \<in> set [''587c4f7c4d7c30303030393054313036''].
          \<not> putFails ?w (eventStateKey (Some ''ab12'') k) \<longrightarrow>
          (\<exists>t. entries (fst ?res) (eventStateKey (Some ''ab12'') k) =
             Some (EventStateDoc
                     \<lparr>sequence = sequence (the (getEventState ?w k (Some ''ab12''))) + 1,
                      contentHash = ''CANCELLED'', lastSeen = t\<rparr>))"
    using normalizeCalendar_cancellations
            [OF s d, where pf = examplePlatform and cs = exampleConstants and tz = None
               and parsed = "exampleCalendar []", unfolded Let_def m n]
    by blast
  then have "\<not> putFails ?w
                 (eventStateKey (Some ''ab12'') ''587c4f7c4d7c30303030393054313036'') \<longrightarrow>
          (\<exists>t. entries (fst ?res)
                  (eventStateKey (Some ''ab12'') ''587c4f7c4d7c30303030393054313036'') =
             Some (EventStateDoc
                     \<lparr>sequence = sequence (the (getEventState ?w
                         ''587c4f7c4d7c30303030393054313036'' (Some ''ab12''))) + 1,
                      contentHash = ''CANCELLED'', lastSeen = t\<rparr>))"
    by simp
  then have second: "\<exists>t. entries (fst ?res) ''ab12:event:587c4f7c4d7c30303030393054313036'' =
      Some (EventStateDoc \<lparr>sequence = 5, contentHash = ''CANCELLED'', lastSeen = t\<rparr>)"
    using pf unfolding g k by simp
  show ?thesis
    using s first second by blast
qed

text \<open>
  C2 as stated fails: a key of the previous snapshot that is absent from the feed and
  has no state record in the store gets no cancellation (\<open>createCancelledEventFromState\<close>
  returns \<open>null\<close> for it).
\<close>

theorem normalizeCalendar_no_record_no_cancellation:
  "getPreviousSnapshot
     (exampleWorld (map_of
        [(''ab12:snapshot:keys'',
          SnapshotDoc \<lparr>eventKeys = [''587c4f7c4d7c30303030393054313036''], generatedAt = 5\<rparr>)]))
     (Some ''ab12'')
     = Some \<lparr>eventKeys = [''587c4f7c4d7c30303030393054313036''], generatedAt = 5\<rparr> \<and>
   events (exampleCalendar []) = [] \<and>
   normalizedEvents (snd (normalizeCalendar exampleConstants examplePlatform
     (exampleWorld (map_of
        [(''ab12:snapshot:keys'',
          SnapshotDoc \<lparr>eventKeys = [''587c4f7c4d7c30303030393054313036''], generatedAt = 5\<rparr>)]))
     (exampleCalendar []) (Some ''ab12'') None)) = []"
  by code_simp

end
